theory Spec2Isabelle
  imports Main
begin

section \<open>JavaScript strings and numbers\<close>

text \<open>
  A JavaScript string is modelled as a \<^typ>\<open>string\<close>, one \<^typ>\<open>char\<close> per code unit,
  for strings of 7-bit ASCII code units.  Literal CJK text of the source, which the file
  cannot hold, is written as the bytes of its UTF-8 encoding (\<open>zh\<close>); no operation of
  the model inspects those bytes, and none of them is a white-space or a word character.
\<close>

definition zh :: "nat list \<Rightarrow> string" where
  "zh bs = map char_of bs"

text \<open>Template-literal rendering of an integral number: decimal digits, \<open>-\<close> first
  when negative.\<close>

definition digit_char :: "nat \<Rightarrow> char" where
  "digit_char d = ''0123456789'' ! d"

fun show_nat :: "nat \<Rightarrow> string" where
  "show_nat n = (if n < 10 then [digit_char n] else show_nat (n div 10) @ [digit_char (n mod 10)])"

declare show_nat.simps [simp del]

definition show_int :: "int \<Rightarrow> string" where
  "show_int i = (if i < 0 then CHR ''-'' # show_nat (nat (- i)) else show_nat (nat i))"

definition NL :: string where
  "NL = [CHR 0x0A]"

text \<open>JavaScript truthiness of a string and of an optional string: \<open>undefined\<close>
  and the empty string are falsy.\<close>

definition truthy :: "string option \<Rightarrow> bool" where
  "truthy v = (case v of None \<Rightarrow> False | Some s \<Rightarrow> s \<noteq> [])"

definition is_space :: "char \<Rightarrow> bool" where
  "is_space c = (c \<in> set [CHR 0x09, CHR 0x0A, CHR 0x0B, CHR 0x0C, CHR 0x0D, CHR '' ''])"

definition is_upper :: "char \<Rightarrow> bool" where
  "is_upper c = (c \<in> set ''ABCDEFGHIJKLMNOPQRSTUVWXYZ'')"

definition is_lower :: "char \<Rightarrow> bool" where
  "is_lower c = (c \<in> set ''abcdefghijklmnopqrstuvwxyz'')"

definition is_digit :: "char \<Rightarrow> bool" where
  "is_digit c = (c \<in> set ''0123456789'')"

definition is_word :: "char \<Rightarrow> bool" where
  "is_word c = (is_upper c \<or> is_lower c \<or> is_digit c \<or> c = CHR ''_'')"

definition to_upper :: "char \<Rightarrow> char" where
  "to_upper c =
     (case map_of (zip ''abcdefghijklmnopqrstuvwxyz'' ''ABCDEFGHIJKLMNOPQRSTUVWXYZ'') c of
        Some u \<Rightarrow> u | None \<Rightarrow> c)"

definition trimStart :: "string \<Rightarrow> string" where
  "trimStart s = dropWhile is_space s"

definition trimEnd :: "string \<Rightarrow> string" where
  "trimEnd s = rev (dropWhile is_space (rev s))"

definition trim :: "string \<Rightarrow> string" where
  "trim s = trimEnd (trimStart s)"

fun startsWith :: "string \<Rightarrow> string \<Rightarrow> bool" where
  "startsWith s [] = True"
| "startsWith [] (p # ps) = False"
| "startsWith (c # cs) (p # ps) = (c = p \<and> startsWith cs ps)"

fun str_includes :: "string \<Rightarrow> string \<Rightarrow> bool" where
  "str_includes [] p = (p = [])"
| "str_includes (c # cs) p = (startsWith (c # cs) p \<or> str_includes cs p)"

fun join :: "string \<Rightarrow> string list \<Rightarrow> string" where
  "join sep [] = []"
| "join sep [x] = x"
| "join sep (x # y # ys) = x @ sep @ join sep (y # ys)"

text \<open>\<open>s.split(c)\<close> for a one-character separator: the pieces between the occurrences
  of \<open>c\<close>, so that the empty string gives one empty piece.\<close>

fun split_on :: "char \<Rightarrow> string \<Rightarrow> string list" where
  "split_on sep [] = [[]]"
| "split_on sep (c # cs) =
     (if c = sep then [] # split_on sep cs
      else (case split_on sep cs of p # ps \<Rightarrow> (c # p) # ps | [] \<Rightarrow> [[c]]))"

section \<open>Regular expressions\<close>

text \<open>
  The regular expressions of the source are terms of \<open>regex\<close>, matched by backtracking
  in the order of the JavaScript matcher: \<open>rmatch\<close> lists, in the order the matcher
  would try them, the states (rest of the input, captures) in which a match of the
  expression at the head of the input can end.  \<open>Star True\<close> is the greedy \<open>*\<close>,
  \<open>Star False\<close> the lazy \<open>*?\<close>; an iteration that consumes nothing is not repeated.  The
  flag \<open>i\<close> is the \<open>/i\<close> flag.
\<close>

datatype cset = Lit char | Space | Dot | Alpha | AnyOf "cset list" | NoneOf "cset list"

fun cmatch :: "bool \<Rightarrow> cset \<Rightarrow> char \<Rightarrow> bool" where
  "cmatch i (Lit a) c = (if i then to_upper a = to_upper c else a = c)"
| "cmatch i Space c = is_space c"
| "cmatch i Dot c = (c \<noteq> CHR 0x0A \<and> c \<noteq> CHR 0x0D)"
| "cmatch i Alpha c = (is_upper c \<or> is_lower c)"
| "cmatch i (AnyOf cs) c = (\<exists>x \<in> set cs. cmatch i x c)"
| "cmatch i (NoneOf cs) c = (\<forall>x \<in> set cs. \<not> cmatch i x c)"

datatype regex =
  Eps | Atom cset | Cat regex regex | Alt regex regex | Star bool regex | Grp nat regex

type_synonym mstate = "string \<times> (nat \<times> string) list"

function rmatch :: "bool \<Rightarrow> regex \<Rightarrow> mstate \<Rightarrow> mstate list" where
  "rmatch i Eps st = [st]"
| "rmatch i (Atom cs) st =
     (case fst st of [] \<Rightarrow> [] | x # xs \<Rightarrow> if cmatch i cs x then [(xs, snd st)] else [])"
| "rmatch i (Cat r1 r2) st = concat (map (rmatch i r2) (rmatch i r1 st))"
| "rmatch i (Alt r1 r2) st = rmatch i r1 st @ rmatch i r2 st"
| "rmatch i (Star greedy r) st =
     (let more = concat (map (rmatch i (Star greedy r))
                   (filter (\<lambda>st'. length (fst st') < length (fst st)) (rmatch i r st)))
      in if greedy then more @ [st] else st # more)"
| "rmatch i (Grp n r) st =
     map (\<lambda>st'. (fst st', (n, take (length (fst st) - length (fst st')) (fst st)) # snd st'))
       (rmatch i r st)"
  by pat_completeness auto
termination
  by (relation "measures [\<lambda>(i, r, st). size r, \<lambda>(i, r, st). length (fst st)]") auto

declare rmatch.simps [simp del]

text \<open>\<open>regex.exec(s)\<close> without the \<open>g\<close> flag: the first match at the leftmost
  position where there is one.  \<open>regex.test(s)\<close> says whether there is one.\<close>

fun rexec :: "bool \<Rightarrow> regex \<Rightarrow> string \<Rightarrow> mstate option" where
  "rexec i r [] = (case rmatch i r ([], []) of m # _ \<Rightarrow> Some m | [] \<Rightarrow> None)"
| "rexec i r (c # cs) =
     (case rmatch i r (c # cs, []) of m # _ \<Rightarrow> Some m | [] \<Rightarrow> rexec i r cs)"

definition rtest :: "bool \<Rightarrow> regex \<Rightarrow> string \<Rightarrow> bool" where
  "rtest i r s = (rexec i r s \<noteq> None)"

text \<open>\<open>s.split(regex)\<close> for an expression without capturing groups: \<open>acc\<close> is the
  piece since the last separator, \<open>s\<close> the input from the position tried next.\<close>

function rsplit_from :: "bool \<Rightarrow> regex \<Rightarrow> string \<Rightarrow> string \<Rightarrow> string list" where
  "rsplit_from i r acc s =
     (case s of
        [] \<Rightarrow> [acc]
      | c # cs \<Rightarrow>
          (case rmatch i r (s, []) of
             [] \<Rightarrow> rsplit_from i r (acc @ [c]) cs
           | m # _ \<Rightarrow>
               if length (fst m) < length s then acc # rsplit_from i r [] (fst m)
               else if acc = [] then rsplit_from i r (acc @ [c]) cs
               else acc # rsplit_from i r [] s))"
  by pat_completeness auto
termination
  by (relation "measures [\<lambda>(i, r, acc, s). length s, \<lambda>(i, r, acc, s). length acc]") auto

declare rsplit_from.simps [simp del]

definition rsplit :: "bool \<Rightarrow> regex \<Rightarrow> string \<Rightarrow> string list" where
  "rsplit i r s =
     (if s = [] then (if rmatch i r ([], []) = [] then [[]] else [])
      else rsplit_from i r [] s)"

definition Str :: "string \<Rightarrow> regex" where
  "Str s = foldr (\<lambda>c r. Cat (Atom (Lit c)) r) s Eps"

definition Plus :: "regex \<Rightarrow> regex" where
  "Plus r = Cat r (Star True r)"

definition LazyPlus :: "regex \<Rightarrow> regex" where
  "LazyPlus r = Cat r (Star False r)"

definition Opt :: "regex \<Rightarrow> regex" where
  "Opt r = Alt r Eps"

definition Cats :: "regex list \<Rightarrow> regex" where
  "Cats rs = foldr Cat rs Eps"

definition quote_class :: cset where
  "quote_class = AnyOf [Lit (CHR 0x22), Lit (CHR 0x27)]"

section \<open>DockerCommandParser\<close>

record DockerExecCommand =
  dc_containerName :: string
  dc_command :: string
  dc_options :: "string list"
  dc_workdir :: "string option"
  dc_user :: "string option"
  dc_env :: "(string \<times> string) list"

datatype command_type = docker_exec | docker_run | regular | compound

record ParsedCommand =
  pc_type :: command_type
  originalCommand :: string
  dockerCommands :: "DockerExecCommand list"
  regularCommands :: "string list"
  needsContainerContext :: "bool option"

text \<open>\<^verbatim>\<open>/docker\s+exec\s+(?<options>(?:-[a-zA-Z]+(?:\s+\S+)?\s*)*)\s*(?<container>\S+)\s+(?<command>.+)/i\<close>\<close>

definition docker_options_group :: regex where
  "docker_options_group =
     Star True (Cats [Str ''-'', Plus (Atom Alpha),
       Opt (Cat (Plus (Atom Space)) (Plus (Atom (NoneOf [Space])))), Star True (Atom Space)])"

definition DOCKER_EXEC_REGEX :: regex where
  "DOCKER_EXEC_REGEX =
     Cats [Str ''docker'', Plus (Atom Space), Str ''exec'', Plus (Atom Space),
       Grp 1 docker_options_group, Star True (Atom Space),
       Grp 2 (Plus (Atom (NoneOf [Space]))), Plus (Atom Space), Grp 3 (Plus (Atom Dot))]"

text \<open>\<^verbatim>\<open>/docker\s+run\s+(?<options>(?:-[a-zA-Z]+(?:\s+\S+)?\s*)*)\s*(?<image>\S+)\s*(?<command>.*)/i\<close>\<close>

definition DOCKER_RUN_REGEX :: regex where
  "DOCKER_RUN_REGEX =
     Cats [Str ''docker'', Plus (Atom Space), Str ''run'', Plus (Atom Space),
       Grp 1 docker_options_group, Star True (Atom Space),
       Grp 2 (Plus (Atom (NoneOf [Space]))), Star True (Atom Space), Grp 3 (Star True (Atom Dot))]"

text \<open>\<^verbatim>\<open>/\s*(?:&&|\|\||;)\s*/\<close>\<close>

definition COMPOUND_SEPARATORS :: regex where
  "COMPOUND_SEPARATORS =
     Cats [Star True (Atom Space), Alt (Str ''&&'') (Alt (Str ''||'') (Str '';'')),
       Star True (Atom Space)]"

definition isCompoundCommand :: "string \<Rightarrow> bool" where
  "isCompoundCommand command = rtest False COMPOUND_SEPARATORS command"

definition isDockerExecCommand :: "string \<Rightarrow> bool" where
  "isDockerExecCommand command = rtest True DOCKER_EXEC_REGEX command"

definition isDockerRunCommand :: "string \<Rightarrow> bool" where
  "isDockerRunCommand command = rtest True DOCKER_RUN_REGEX command"

text \<open>\<open>env\<close> is an object created by \<open>{}\<close>, and \<open>env[key] = value\<close> an assignment to
  it.  The key \<open>__proto__\<close> is the accessor of \<open>Object.prototype\<close>, whose setter ignores
  a string: the assignment creates no property.  \<open>Object.entries\<close> lists the keys that
  are array indices (the decimal numerals of the integers below \<open>2\<^sup>3\<^sup>2 - 1\<close>, without
  leading zeros) first, in ascending order, then the other keys in the order of their
  creation; assigning a key that the object has keeps the key's place.  The list is
  kept in the order of \<open>Object.entries\<close>.\<close>

definition digits_value :: "string \<Rightarrow> nat" where
  "digits_value k = foldl (\<lambda>n c. 10 * n + (of_char c - 48)) 0 k"

definition is_array_index :: "string \<Rightarrow> bool" where
  "is_array_index k =
     (k \<noteq> [] \<and> list_all is_digit k \<and> (k = ''0'' \<or> hd k \<noteq> CHR ''0'')
      \<and> digits_value k < 4294967295)"

fun insert_index ::
  "string \<Rightarrow> string \<Rightarrow> (string \<times> string) list \<Rightarrow> (string \<times> string) list" where
  "insert_index k v [] = [(k, v)]"
| "insert_index k v ((k', v') # kvs) =
     (if is_array_index k' \<and> digits_value k' < digits_value k
      then (k', v') # insert_index k v kvs
      else (k, v) # (k', v') # kvs)"

definition env_set :: "string \<Rightarrow> string \<Rightarrow> (string \<times> string) list \<Rightarrow> (string \<times> string) list" where
  "env_set k v env =
     (if k = ''__proto__'' then env
      else if k \<in> set (map fst env)
      then map (\<lambda>(k', v'). if k' = k then (k, v) else (k', v')) env
      else if is_array_index k then insert_index k v env
      else env @ [(k, v)])"

text \<open>The option loop of \<open>parseDockerExecCommand\<close>, on the parts from index \<open>i\<close> on.
  It returns the parts left when the loop ends.\<close>

fun parseOptions ::
  "string list \<Rightarrow> DockerExecCommand \<Rightarrow> string list \<times> DockerExecCommand" where
  "parseOptions [] acc = ([], acc)"
| "parseOptions (option # rest) acc =
     (if \<not> startsWith option ''-'' then (option # rest, acc)
      else if option = ''-w'' \<or> option = ''--workdir'' then
        (case rest of
           [] \<Rightarrow> ([], acc)
         | v # rest' \<Rightarrow> parseOptions rest' (acc\<lparr>dc_workdir := Some v\<rparr>))
      else if option = ''-u'' \<or> option = ''--user'' then
        (case rest of
           [] \<Rightarrow> ([], acc)
         | v # rest' \<Rightarrow> parseOptions rest' (acc\<lparr>dc_user := Some v\<rparr>))
      else if option = ''-e'' \<or> option = ''--env'' then
        (case rest of
           [] \<Rightarrow> ([], acc)
         | envVar # rest' \<Rightarrow>
             parseOptions rest'
               (if str_includes envVar ''=''
                then (case take 2 (split_on CHR ''='' envVar) of
                        [key, val] \<Rightarrow> acc\<lparr>dc_env := env_set key val (dc_env acc)\<rparr>
                      | _ \<Rightarrow> acc)
                else acc))
      else
        (case rest of
           [] \<Rightarrow> ([], acc\<lparr>dc_options := dc_options acc @ [option]\<rparr>)
         | v # rest' \<Rightarrow>
             if (option = ''-p'' \<or> option = ''-v'' \<or> option = ''--name'') \<and> \<not> startsWith v ''-''
             then parseOptions rest' (acc\<lparr>dc_options := dc_options acc @ [option, v]\<rparr>)
             else parseOptions (v # rest') (acc\<lparr>dc_options := dc_options acc @ [option]\<rparr>)))"

definition parseDockerExecCommand :: "string \<Rightarrow> DockerExecCommand option" where
  "parseDockerExecCommand command =
     (let parts = rsplit False (Plus (Atom Space)) (trim command) in
      case parts of
        p0 # p1 # p2 # ps \<Rightarrow>
          if p0 \<noteq> ''docker'' \<or> p1 \<noteq> ''exec'' then None
          else
            (case parseOptions (p2 # ps)
                    \<lparr>dc_containerName = [], dc_command = [], dc_options = [],
                     dc_workdir = None, dc_user = None, dc_env = []\<rparr> of
               ([], acc) \<Rightarrow> None
             | ([name], acc) \<Rightarrow> None
             | (name # cmd, acc) \<Rightarrow>
                 Some (acc\<lparr>dc_containerName := name, dc_command := join '' '' cmd\<rparr>))
      | _ \<Rightarrow> None)"

text \<open>The loop of \<open>parseCompoundCommand\<close> over the parts of the split.\<close>

fun classifyParts ::
  "string list \<Rightarrow> DockerExecCommand list \<times> string list \<times> bool
     \<Rightarrow> DockerExecCommand list \<times> string list \<times> bool" where
  "classifyParts [] acc = acc"
| "classifyParts (part # parts) (dcs, regs, hasDockerExec) =
     (let trimmedPart = trim part in
      if trimmedPart = [] then classifyParts parts (dcs, regs, hasDockerExec)
      else if isDockerExecCommand trimmedPart then
        (case parseDockerExecCommand trimmedPart of
           Some dockerCommand \<Rightarrow> classifyParts parts (dcs @ [dockerCommand], regs, True)
         | None \<Rightarrow> classifyParts parts (dcs, regs, hasDockerExec))
      else classifyParts parts (dcs, regs @ [trimmedPart], hasDockerExec))"

definition parseCompoundCommand :: "string \<Rightarrow> ParsedCommand" where
  "parseCompoundCommand command =
     (let parts = rsplit False COMPOUND_SEPARATORS command in
      case classifyParts parts ([], [], False) of
        (dcs, regs, hasDockerExec) \<Rightarrow>
          \<lparr>pc_type = compound, originalCommand = command, dockerCommands = dcs,
           regularCommands = regs, needsContainerContext = Some (hasDockerExec \<and> regs \<noteq> [])\<rparr>)"

definition parseCommand :: "string \<Rightarrow> ParsedCommand" where
  "parseCommand command =
     (let trimmedCommand = trim command in
      if isCompoundCommand trimmedCommand then parseCompoundCommand trimmedCommand
      else if isDockerExecCommand trimmedCommand then
        \<lparr>pc_type = docker_exec, originalCommand = trimmedCommand,
         dockerCommands =
           (case parseDockerExecCommand trimmedCommand of Some d \<Rightarrow> [d] | None \<Rightarrow> []),
         regularCommands = [], needsContainerContext = None\<rparr>
      else if isDockerRunCommand trimmedCommand then
        \<lparr>pc_type = docker_run, originalCommand = trimmedCommand, dockerCommands = [],
         regularCommands = [trimmedCommand], needsContainerContext = None\<rparr>
      else
        \<lparr>pc_type = regular, originalCommand = trimmedCommand, dockerCommands = [],
         regularCommands = [trimmedCommand], needsContainerContext = None\<rparr>)"

text \<open>\<open>buildDockerExecCommand\<close> and \<open>buildContainerCommand\<close>.\<close>

definition buildDockerExecCommand :: "DockerExecCommand \<Rightarrow> string" where
  "buildDockerExecCommand dockerCmd =
     ''docker exec''
     @ (if dc_options dockerCmd \<noteq> [] then '' '' @ join '' '' (dc_options dockerCmd) else [])
     @ (if truthy (dc_workdir dockerCmd) then '' -w '' @ the (dc_workdir dockerCmd) else [])
     @ (if truthy (dc_user dockerCmd) then '' -u '' @ the (dc_user dockerCmd) else [])
     @ concat (map (\<lambda>(key, val). '' -e '' @ key @ ''='' @ val) (dc_env dockerCmd))
     @ '' '' @ dc_containerName dockerCmd @ '' '' @ dc_command dockerCmd"

definition buildContainerCommand :: "ParsedCommand \<Rightarrow> string option \<Rightarrow> string list" where
  "buildContainerCommand parsedCommand defaultContainer =
     (if pc_type parsedCommand = regular then regularCommands parsedCommand
      else if pc_type parsedCommand = docker_exec then [originalCommand parsedCommand]
      else if pc_type parsedCommand = compound \<and> needsContainerContext parsedCommand = Some True then
        (let commands = map buildDockerExecCommand (dockerCommands parsedCommand);
             currentContainer =
               (case dockerCommands parsedCommand of
                  [] \<Rightarrow> defaultContainer
                | ds \<Rightarrow> Some (dc_containerName (last ds)))
         in if truthy currentContainer \<and> regularCommands parsedCommand \<noteq> []
            then commands @
              [''docker exec '' @ the currentContainer @ '' sh -c '' @ [CHR 0x22]
                 @ join '' && '' (regularCommands parsedCommand) @ [CHR 0x22]]
            else commands)
      else [originalCommand parsedCommand])"

section \<open>ContainerContextManager\<close>

record ContainerSession =
  cs_connectionId :: string
  cs_containerName :: string
  workingDirectory :: string
  environment :: "(string \<times> string) list"
  cs_user :: "string option"
  lastActivity :: int
  isActive :: bool

record ContextOptions =
  co_workingDirectory :: "string option"
  co_environment :: "(string \<times> string) list option"
  co_user :: "string option"

text \<open>A JavaScript \<open>Map\<close>, which lists its entries in the order of their first
  insertion: \<open>map_set\<close> is \<open>Map.prototype.set\<close>.\<close>

fun map_set :: "'k \<Rightarrow> 'v \<Rightarrow> ('k \<times> 'v) list \<Rightarrow> ('k \<times> 'v) list" where
  "map_set k v [] = [(k, v)]"
| "map_set k v ((k', v') # kvs) = (if k' = k then (k, v) # kvs else (k', v') # map_set k v kvs)"

definition sessionKey :: "string \<Rightarrow> string \<Rightarrow> string" where
  "sessionKey connectionId containerName = connectionId @ '':'' @ containerName"

definition setContainerContext ::
  "int \<Rightarrow> (string \<times> ContainerSession) list \<Rightarrow> string \<Rightarrow> string \<Rightarrow> ContextOptions
     \<Rightarrow> (string \<times> ContainerSession) list" where
  "setContainerContext now containerSessions connectionId containerName options =
     map_set (sessionKey connectionId containerName)
       \<lparr>cs_connectionId = connectionId, cs_containerName = containerName,
        workingDirectory =
          (if truthy (co_workingDirectory options) then the (co_workingDirectory options)
           else ''/root''),
        environment = (case co_environment options of Some e \<Rightarrow> e | None \<Rightarrow> []),
        cs_user = co_user options, lastActivity = now, isActive = True\<rparr>
       containerSessions"

text \<open>The loops of \<open>getContainerContext\<close> (no container named) and of
  \<open>getActiveContainer\<close>, over the sessions in the map's order.\<close>

fun latestSession ::
  "string \<Rightarrow> ContainerSession list \<Rightarrow> ContainerSession option \<times> int
     \<Rightarrow> ContainerSession option \<times> int" where
  "latestSession connectionId [] acc = acc"
| "latestSession connectionId (session # rest) (latest, latestTime) =
     (if cs_connectionId session = connectionId \<and> isActive session
         \<and> lastActivity session > latestTime
      then latestSession connectionId rest (Some session, lastActivity session)
      else latestSession connectionId rest (latest, latestTime))"

definition getContainerContext ::
  "(string \<times> ContainerSession) list \<Rightarrow> string \<Rightarrow> string option \<Rightarrow> ContainerSession option" where
  "getContainerContext containerSessions connectionId containerName =
     (if truthy containerName
      then map_of containerSessions (sessionKey connectionId (the containerName))
      else fst (latestSession connectionId (map snd containerSessions) (None, 0)))"

definition getActiveContainer ::
  "(string \<times> ContainerSession) list \<Rightarrow> string \<Rightarrow> string option" where
  "getActiveContainer containerSessions connectionId =
     map_option cs_containerName
       (fst (latestSession connectionId (map snd containerSessions) (None, 0)))"

definition updateActivity ::
  "int \<Rightarrow> (string \<times> ContainerSession) list \<Rightarrow> string \<Rightarrow> string
     \<Rightarrow> (string \<times> ContainerSession) list" where
  "updateActivity now containerSessions connectionId containerName =
     (case map_of containerSessions (sessionKey connectionId containerName) of
        None \<Rightarrow> containerSessions
      | Some session \<Rightarrow>
          map_set (sessionKey connectionId containerName) (session\<lparr>lastActivity := now\<rparr>)
            containerSessions)"

definition sessionOptions :: "ContainerSession option \<Rightarrow> string" where
  "sessionOptions session =
     (case session of
        None \<Rightarrow> []
      | Some ss \<Rightarrow>
          (if workingDirectory ss \<noteq> [] then '' -w '' @ workingDirectory ss else [])
          @ (if truthy (cs_user ss) then '' -u '' @ the (cs_user ss) else [])
          @ concat (map (\<lambda>(key, val). '' -e '' @ key @ ''='' @ [CHR 0x22] @ val @ [CHR 0x22])
                      (environment ss)))"

definition buildContainerExecCommand ::
  "string \<Rightarrow> string \<Rightarrow> ContainerSession option \<Rightarrow> bool \<Rightarrow> string" where
  "buildContainerExecCommand containerName command session interactive =
     ''docker exec'' @ (if interactive then '' -it'' else []) @ sessionOptions session
       @ '' '' @ containerName @ '' '' @ command"

section \<open>SSHService\<close>

datatype ConnectionStatus = DISCONNECTED | CONNECTING | CONNECTED | RECONNECTING | ERROR

record SSHConnectionConfig =
  host :: string
  port :: "nat option"
  username :: string
  password :: "string option"
  privateKey :: "string option"
  passphrase :: "string option"
  keepaliveInterval :: "nat option"
  readyTimeout :: "nat option"
  reconnect :: "bool option"
  reconnectTries :: "nat option"
  reconnectDelay :: "nat option"

text \<open>\<open>client\<close> is the handle of the live \<open>NodeSSH\<close> object, \<open>lastUsed\<close> a time in
  milliseconds.\<close>

record SSHConnection =
  conn_id :: string
  conn_name :: "string option"
  config :: SSHConnectionConfig
  status :: ConnectionStatus
  lastUsed :: "int option"
  lastError :: "string option"
  client :: "nat option"
  tags :: "string list option"
  currentDirectory :: "string option"

record CommandResult =
  stdout :: string
  stderr :: string
  code :: int

record ExecOptions =
  cwd :: "string option"
  timeout :: "int option"

record Credentials =
  cr_password :: "string option"
  cr_passphrase :: "string option"

text \<open>What the remote side is asked to run: the client, the command line, and the
  \<open>cwd\<close> and \<open>timeout\<close> options of \<open>execCommand\<close>.  The remote answers with a result,
  or the call rejects with a message.\<close>

record ExecCall =
  ex_client :: nat
  ex_command :: string
  ex_cwd :: "string option"
  ex_timeout :: "int option"

datatype ExecResponse = Resolves CommandResult | Rejects string

text \<open>The world outside the process: how the remote answers a call, given the calls
  made before it, the \<open>COMMAND_TIMEOUT\<close> variable of the process environment as
  \<open>parseInt\<close> reads it (\<open>None\<close> when unset or not a number), and the clock:
  \<open>clock w now log\<close> is the time in milliseconds that \<open>new Date()\<close> gives, in a call that
  began at time \<open>now\<close>, once the remote calls of \<open>log\<close> have returned.\<close>

record world =
  remote_exec :: "ExecCall list \<Rightarrow> ExecCall \<Rightarrow> ExecResponse"
  COMMAND_TIMEOUT :: "int option"
  clock :: "int \<Rightarrow> ExecCall list \<Rightarrow> int"

record SSHService =
  connections :: "string \<rightharpoonup> SSHConnection"
  credentialStore :: "string \<rightharpoonup> Credentials"
  isDocker :: bool
  containerSessions :: "(string \<times> ContainerSession) list"
  exec_log :: "ExecCall list"

datatype error = ConnectionUnavailable string | ConnectionUnusable string

text \<open>\<open>error.message\<close>: the two texts say that the connection is unavailable or not
  connected, and that it is unavailable.\<close>

fun message :: "error \<Rightarrow> string" where
  "message (ConnectionUnavailable connectionId) =
     zh [0xE8, 0xBF, 0x9E, 0xE6, 0x8E, 0xA5] @ '' '' @ connectionId @ '' ''
       @ zh [0xE4, 0xB8, 0x8D, 0xE5, 0x8F, 0xAF, 0xE7, 0x94, 0xA8, 0xE6, 0x88, 0x96, 0xE6,
             0x9C, 0xAA, 0xE8, 0xBF, 0x9E, 0xE6, 0x8E, 0xA5]"
| "message (ConnectionUnusable connectionId) =
     zh [0xE8, 0xBF, 0x9E, 0xE6, 0x8E, 0xA5] @ '' '' @ connectionId @ '' ''
       @ zh [0xE4, 0xB8, 0x8D, 0xE5, 0x8F, 0xAF, 0xE7, 0x94, 0xA8]"

definition getCredentials :: "SSHService \<Rightarrow> string \<Rightarrow> Credentials" where
  "getCredentials s connectionId =
     (case credentialStore s connectionId of
        None \<Rightarrow> \<lparr>cr_password = None, cr_passphrase = None\<rparr>
      | Some creds \<Rightarrow>
          if isDocker s then creds
          else \<lparr>cr_password = (if truthy (cr_password creds) then cr_password creds else None),
                cr_passphrase = (if truthy (cr_passphrase creds) then cr_passphrase creds else None)\<rparr>)"

definition execCommand :: "world \<Rightarrow> SSHService \<Rightarrow> ExecCall \<Rightarrow> SSHService \<times> ExecResponse" where
  "execCommand w s call = (s\<lparr>exec_log := exec_log s @ [call]\<rparr>, remote_exec w (exec_log s) call)"

definition usable :: "SSHConnection \<Rightarrow> bool" where
  "usable connection = (client connection \<noteq> None \<and> status connection = CONNECTED)"

definition getCurrentDirectory ::
  "world \<Rightarrow> SSHService \<Rightarrow> string \<Rightarrow> SSHService \<times> (error + string)" where
  "getCurrentDirectory w s connectionId =
     (case connections s connectionId of
        None \<Rightarrow> (s, Inl (ConnectionUnavailable connectionId))
      | Some connection \<Rightarrow>
          if \<not> usable connection then (s, Inl (ConnectionUnavailable connectionId))
          else
            (case execCommand w s
                    \<lparr>ex_client = the (client connection), ex_command = ''pwd'',
                     ex_cwd = None, ex_timeout = None\<rparr> of
               (s', Resolves result) \<Rightarrow> (s', Inr (trim (stdout result)))
             | (s', Rejects msg) \<Rightarrow> (s', Inr [])))"

text \<open>\<open>command.replace(/\bsudo\b/g, 'sudo -S')\<close>: \<open>prev\<close> says whether the character
  before the position is a word character.\<close>

fun replace_sudo_from :: "bool \<Rightarrow> string \<Rightarrow> string" where
  "replace_sudo_from prev [] = []"
| "replace_sudo_from prev (c # cs) =
     (if \<not> prev \<and> startsWith (c # cs) ''sudo''
         \<and> (case drop 3 cs of [] \<Rightarrow> True | d # _ \<Rightarrow> \<not> is_word d)
      then ''sudo -S'' @ replace_sudo_from True (drop 3 cs)
      else c # replace_sudo_from (is_word c) cs)"

definition replace_sudo :: "string \<Rightarrow> string" where
  "replace_sudo command = replace_sudo_from False command"




definition truthy_number :: "int option \<Rightarrow> bool" where
  "truthy_number v = (case v of None \<Rightarrow> False | Some n \<Rightarrow> n \<noteq> 0)"

text \<open>\<open>catch (error)\<close> of \<open>executeCommand\<close>: a failure becomes a result.\<close>

definition failed :: "string \<Rightarrow> CommandResult" where
  "failed msg = \<lparr>stdout = [], stderr = msg, code = 1\<rparr>"

definition caught :: "SSHService \<times> (error + CommandResult) \<Rightarrow> SSHService \<times> (error + CommandResult)" where
  "caught r = (case r of (s, Inl e) \<Rightarrow> (s, Inr (failed (message e))) | (s, Inr res) \<Rightarrow> (s, Inr res))"

definition contextOf :: "DockerExecCommand \<Rightarrow> ContextOptions" where
  "contextOf dockerCmd =
     \<lparr>co_workingDirectory = dc_workdir dockerCmd, co_environment = Some (dc_env dockerCmd),
      co_user = dc_user dockerCmd\<rparr>"

text \<open>\<open>setContainerContext\<close> and then \<open>updateActivity\<close> for the container of a
  \<open>docker exec\<close> command; both read the clock, with no remote call between them.\<close>

definition touchContainer ::
  "world \<Rightarrow> int \<Rightarrow> SSHService \<Rightarrow> string \<Rightarrow> DockerExecCommand \<Rightarrow> SSHService" where
  "touchContainer w now s connectionId dockerCmd =
     s\<lparr>containerSessions :=
          updateActivity (clock w now (exec_log s))
            (setContainerContext (clock w now (exec_log s)) (containerSessions s) connectionId
               (dc_containerName dockerCmd) (contextOf dockerCmd))
            connectionId (dc_containerName dockerCmd)\<rparr>"

text \<open>The part of \<open>executeCommand\<close> from \<open>const execOptions\<close> on: the command goes to
  the remote as it is, or with the password piped to \<open>sudo -S\<close>.\<close>

definition sudoCommand :: "SSHService \<Rightarrow> SSHConnection \<Rightarrow> string \<Rightarrow> string" where
  "sudoCommand s connection command =
     (if startsWith (trim command) ''sudo '' \<or> str_includes command '' sudo '' then
        (let password =
               (if truthy (password (config connection)) then password (config connection)
                else cr_password (getCredentials s (conn_id connection)))
         in if truthy password
            then ''echo '' @ [CHR 0x22] @ the password @ [CHR 0x22] @ '' | ''
                   @ replace_sudo command @ '' 2>/dev/null''
            else command)
      else command)"

text \<open>\<open>if (command.trim().startsWith('cd ')) connection.currentDirectory = await
  this.getCurrentDirectory(connectionId)\<close>, with the error if the call throws.\<close>

definition refreshDirectory ::
  "world \<Rightarrow> SSHService \<Rightarrow> SSHConnection \<Rightarrow> string \<Rightarrow> string \<Rightarrow> SSHService \<times> error option" where
  "refreshDirectory w s connection connectionId command =
     (if startsWith (trim command) ''cd '' then
        (case getCurrentDirectory w s connectionId of
           (s', Inl e) \<Rightarrow> (s', Some e)
         | (s', Inr dir) \<Rightarrow>
             (s'\<lparr>connections := (connections s')
                    (connectionId \<mapsto> connection\<lparr>currentDirectory := Some dir\<rparr>)\<rparr>,
              None))
      else (s, None))"

text \<open>\<open>if (parsedCommand.type === 'docker_exec' && parsedCommand.dockerCommands.length > 0)\<close>:
  the container of the command becomes the connection's context.\<close>

definition rememberContainer ::
  "world \<Rightarrow> int \<Rightarrow> SSHService \<Rightarrow> string \<Rightarrow> ParsedCommand \<Rightarrow> SSHService" where
  "rememberContainer w now s connectionId parsedCommand =
     (case dockerCommands parsedCommand of
        dockerCmd # _ \<Rightarrow>
          if pc_type parsedCommand = docker_exec
          then touchContainer w now s connectionId dockerCmd
          else s
      | [] \<Rightarrow> s)"

definition directCall :: "world \<Rightarrow> SSHService \<Rightarrow> SSHConnection \<Rightarrow> string \<Rightarrow> ExecOptions \<Rightarrow> ExecCall" where
  "directCall w s connection command options =
     \<lparr>ex_client = the (client connection),
      ex_command = sudoCommand s connection command,
      ex_cwd =
        (if truthy (cwd options) then cwd options
         else if truthy (currentDirectory connection) then currentDirectory connection
         else None),
      ex_timeout =
        (if truthy_number (timeout options) then timeout options
         else (case COMMAND_TIMEOUT w of
                 Some n \<Rightarrow> if n > 0 then Some n else None
               | None \<Rightarrow> None))\<rparr>"

definition executeDirect ::
  "world \<Rightarrow> int \<Rightarrow> SSHService \<Rightarrow> SSHConnection \<Rightarrow> string \<Rightarrow> string \<Rightarrow> ParsedCommand
     \<Rightarrow> ExecOptions \<Rightarrow> SSHService \<times> (error + CommandResult)" where
  "executeDirect w now s connection connectionId command parsedCommand options =
     (case execCommand w s (directCall w s connection command options) of
        (s1, Rejects msg) \<Rightarrow> (s1, Inr (failed msg))
      | (s1, Resolves result) \<Rightarrow>
          (case refreshDirectory w s1 connection connectionId
                  (sudoCommand s connection command) of
             (s2, Some e) \<Rightarrow> (s2, Inr (failed (message e)))
           | (s2, None) \<Rightarrow>
               (rememberContainer w now s2 connectionId parsedCommand,
                Inr \<lparr>stdout = stdout result, stderr = stderr result, code = code result\<rparr>)))"

text \<open>\<open>executeDockerContextCommand\<close>: the \<open>docker exec\<close> segments in order, then the
  regular segments inside the last container.\<close>

record ContextRun =
  combinedOutput :: string
  combinedError :: string
  lastExitCode :: int
  activeContainer :: "string option"

definition dockerExecCall :: "SSHConnection \<Rightarrow> ExecOptions \<Rightarrow> string \<Rightarrow> ExecCall" where
  "dockerExecCall connection options command =
     \<lparr>ex_client = the (client connection), ex_command = command,
      ex_cwd = (if truthy (cwd options) then cwd options else currentDirectory connection),
      ex_timeout = (if truthy_number (timeout options) then timeout options else None)\<rparr>"

text \<open>The \<open>for\<close> loop.  The third component of its result is the message of the
  rejection that left the loop, if one did.  The list that \<open>buildContainerCommand\<close>
  returns here is never empty.\<close>

fun runDockerCommands ::
  "world \<Rightarrow> int \<Rightarrow> SSHConnection \<Rightarrow> string \<Rightarrow> ParsedCommand \<Rightarrow> ExecOptions
     \<Rightarrow> DockerExecCommand list \<Rightarrow> SSHService \<times> ContextRun
     \<Rightarrow> SSHService \<times> ContextRun \<times> string option" where
  "runDockerCommands w now connection connectionId parsedCommand options [] (s, acc) =
     (s, acc, None)"
| "runDockerCommands w now connection connectionId parsedCommand options (dockerCmd # rest) (s, acc) =
     (let dockerExecCommand =
            (case buildContainerCommand (parsedCommand\<lparr>dockerCommands := [dockerCmd]\<rparr>) None of
               c # _ \<Rightarrow> c | [] \<Rightarrow> [])
      in case execCommand w s (dockerExecCall connection options dockerExecCommand) of
           (s1, Rejects msg) \<Rightarrow> (s1, acc, Some msg)
         | (s1, Resolves result) \<Rightarrow>
             (let acc1 =
                    \<lparr>combinedOutput =
                       combinedOutput acc @ (if stdout result \<noteq> [] then stdout result @ NL else []),
                     combinedError =
                       combinedError acc @ (if stderr result \<noteq> [] then stderr result @ NL else []),
                     lastExitCode = code result,
                     activeContainer = Some (dc_containerName dockerCmd)\<rparr>;
                  s2 = touchContainer w now s1 connectionId dockerCmd
              in if lastExitCode acc1 \<noteq> 0 then (s2, acc1, None)
                 else runDockerCommands w now connection connectionId parsedCommand options rest
                        (s2, acc1)))"

definition executeDockerContextCommand ::
  "world \<Rightarrow> int \<Rightarrow> SSHService \<Rightarrow> string \<Rightarrow> ParsedCommand \<Rightarrow> ExecOptions
     \<Rightarrow> SSHService \<times> (error + CommandResult)" where
  "executeDockerContextCommand w now s connectionId parsedCommand options =
     (case connections s connectionId of
        None \<Rightarrow> (s, Inl (ConnectionUnusable connectionId))
      | Some connection \<Rightarrow>
          if client connection = None then (s, Inl (ConnectionUnusable connectionId))
          else
            (case runDockerCommands w now connection connectionId parsedCommand options
                    (dockerCommands parsedCommand)
                    (s, \<lparr>combinedOutput = [], combinedError = [], lastExitCode = 0,
                         activeContainer = None\<rparr>) of
               (s1, acc, Some msg) \<Rightarrow>
                 (s1, Inr \<lparr>stdout = trim (combinedOutput acc),
                           stderr = trim (combinedError acc @ msg), code = 1\<rparr>)
             | (s1, acc, None) \<Rightarrow>
                 if regularCommands parsedCommand \<noteq> [] \<and> truthy (activeContainer acc)
                    \<and> lastExitCode acc = 0
                 then
                   (let containerSession =
                          getContainerContext (containerSessions s1) connectionId (activeContainer acc);
                        combinedRegularCommand = join '' && '' (regularCommands parsedCommand);
                        containerExecCommand =
                          buildContainerExecCommand (the (activeContainer acc))
                            (''sh -c '' @ [CHR 0x22] @ combinedRegularCommand @ [CHR 0x22])
                            containerSession False
                    in case execCommand w s1 (dockerExecCall connection options containerExecCommand) of
                         (s2, Rejects msg) \<Rightarrow>
                           (s2, Inr \<lparr>stdout = trim (combinedOutput acc),
                                     stderr = trim (combinedError acc @ msg), code = 1\<rparr>)
                       | (s2, Resolves result) \<Rightarrow>
                           (s2\<lparr>containerSessions :=
                                  updateActivity (clock w now (exec_log s2)) (containerSessions s2)
                                    connectionId
                                    (the (activeContainer acc))\<rparr>,
                            Inr \<lparr>stdout = trim (combinedOutput acc @ stdout result),
                                 stderr = trim (combinedError acc @ stderr result),
                                 code = code result\<rparr>))
                 else
                   (s1, Inr \<lparr>stdout = trim (combinedOutput acc),
                             stderr = trim (combinedError acc), code = lastExitCode acc\<rparr>)))"

text \<open>\<open>executeCommand\<close> wraps a regular command into the active container and calls
  itself on the wrapped command.\<close>

definition wrapped :: "SSHService \<Rightarrow> string \<Rightarrow> string \<Rightarrow> string" where
  "wrapped s connectionId command =
     (let activeContainer = getActiveContainer (containerSessions s) connectionId;
          containerSession = getContainerContext (containerSessions s) connectionId activeContainer
      in buildContainerExecCommand (the activeContainer) command containerSession False)"

definition wraps :: "SSHService \<Rightarrow> string \<Rightarrow> string \<Rightarrow> bool" where
  "wraps s connectionId command =
     (truthy (getActiveContainer (containerSessions s) connectionId)
      \<and> pc_type (parseCommand command) = regular)"


subsection \<open>The wrapped command of a wrapped command is a \<open>docker exec\<close> command\<close>

definition reach :: "bool \<Rightarrow> regex \<Rightarrow> string \<Rightarrow> string \<Rightarrow> bool" where
  "reach i r s s' = (\<forall>c. \<exists>c'. (s', c') \<in> set (rmatch i r (s, c)))"

lemma reach_Eps: "reach i Eps s s"
  by (simp add: reach_def rmatch.simps(1))

lemma reach_Atom: "cmatch i cs x \<Longrightarrow> reach i (Atom cs) (x # xs) xs"
  by (simp add: reach_def rmatch.simps(2))

lemma reach_Cat: "reach i r1 s s1 \<Longrightarrow> reach i r2 s1 s2 \<Longrightarrow> reach i (Cat r1 r2) s s2"
  unfolding reach_def by (simp add: rmatch.simps(3), metis)

lemma reach_Alt1: "reach i r1 s s' \<Longrightarrow> reach i (Alt r1 r2) s s'"
  unfolding reach_def by (simp add: rmatch.simps(4), metis)

lemma reach_Star0: "reach i (Star g r) s s"
  unfolding reach_def
proof
  fix c
  have "(s, c) \<in> set (rmatch i (Star g r) (s, c))"
    by (subst rmatch.simps(5)) (simp add: Let_def)
  then show "\<exists>c'. (s, c') \<in> set (rmatch i (Star g r) (s, c))" ..
qed

lemma reach_StarI:
  assumes "reach i r s s1" "length s1 < length s" "reach i (Star g r) s1 s2"
  shows "reach i (Star g r) s s2"
  unfolding reach_def
proof
  fix c
  obtain c1 where 1: "(s1, c1) \<in> set (rmatch i r (s, c))"
    using assms(1) unfolding reach_def by blast
  obtain c2 where 2: "(s2, c2) \<in> set (rmatch i (Star g r) (s1, c1))"
    using assms(3) unfolding reach_def by blast
  have "(s1, c1) \<in> set (filter (\<lambda>st'. length (fst st') < length (fst (s, c))) (rmatch i r (s, c)))"
    using 1 assms(2) by simp
  with 2 have "(s2, c2) \<in> set (concat (map (rmatch i (Star g r))
      (filter (\<lambda>st'. length (fst st') < length (fst (s, c))) (rmatch i r (s, c)))))"
    unfolding set_concat set_map by blast
  then have "(s2, c2) \<in> set (rmatch i (Star g r) (s, c))"
    by (subst rmatch.simps(5)) (cases g; simp add: Let_def)
  then show "\<exists>c'. (s2, c') \<in> set (rmatch i (Star g r) (s, c))" ..
qed

lemma reach_Grp:
  assumes "reach i r s s'"
  shows "reach i (Grp n r) s s'"
  unfolding reach_def
proof
  fix c
  obtain c1 where "(s', c1) \<in> set (rmatch i r (s, c))"
    using assms unfolding reach_def by blast
  then have "(s', (n, take (length s - length s') s) # c1) \<in> set (rmatch i (Grp n r) (s, c))"
    unfolding rmatch.simps(6) set_map by force
  then show "\<exists>c'. (s', c') \<in> set (rmatch i (Grp n r) (s, c))" ..
qed

lemma reach_Str: "reach i (Str lit) (lit @ rest) rest"
proof (induction lit)
  case Nil
  show ?case by (simp add: Str_def reach_Eps)
next
  case (Cons a lit)
  have "reach i (Cat (Atom (Lit a)) (Str lit)) (a # lit @ rest) rest"
    by (rule reach_Cat [OF reach_Atom Cons]) simp
  then show ?case by (simp add: Str_def)
qed

lemma reach_Star_class:
  "\<forall>x\<in>set ws. cmatch i cs x \<Longrightarrow> reach i (Star g (Atom cs)) (ws @ rest) rest"
proof (induction ws)
  case Nil
  show ?case by (simp add: reach_Star0)
next
  case (Cons x ws)
  show ?case
    using reach_StarI [of i "Atom cs" "x # ws @ rest" "ws @ rest" g rest] Cons
    by (simp add: reach_Atom)
qed

lemma reach_Plus_class:
  "ws \<noteq> [] \<Longrightarrow> \<forall>x\<in>set ws. cmatch i cs x \<Longrightarrow> reach i (Plus (Atom cs)) (ws @ rest) rest"
  unfolding Plus_def
  by (cases ws) (auto intro!: reach_Cat reach_Atom reach_Star_class)

lemma reach_rtest:
  assumes "reach i r s s'"
  shows "rtest i r s"
proof -
  obtain c' where "(s', c') \<in> set (rmatch i r (s, []))"
    using assms unfolding reach_def by blast
  then have "rmatch i r (s, []) \<noteq> []"
    by auto
  then show ?thesis
    unfolding rtest_def by (cases s) (auto split: list.splits)
qed

lemma docker_exec_shape:
  assumes ws: "ws \<noteq> []" "\<forall>x\<in>set ws. is_space x"
    and t1: "t1 \<noteq> []" "\<forall>x\<in>set t1. \<not> is_space x"
    and sp: "\<forall>x\<in>set (sp # ws'). is_space x"
    and ch: "\<not> is_space ch"
  shows "isDockerExecCommand (''docker'' @ '' '' @ ''exec'' @ ws @ t1 @ (sp # ws') @ [ch] @ rest)"
proof -
  have dot: "cmatch True Dot ch"
    using ch by (auto simp: is_space_def)
  have "reach True DOCKER_EXEC_REGEX
          (''docker'' @ '' '' @ ''exec'' @ ws @ t1 @ (sp # ws') @ [ch] @ rest) rest"
    unfolding DOCKER_EXEC_REGEX_def Cats_def foldr.simps o_apply
    apply (rule reach_Cat [OF reach_Str])
    apply (rule reach_Cat [OF reach_Plus_class])
      apply simp
     apply (simp add: is_space_def)
    apply (rule reach_Cat [OF reach_Str])
    apply (rule reach_Cat [OF reach_Plus_class])
      apply (rule ws(1))
     apply (simp add: ws(2))
    apply (rule reach_Cat [OF reach_Grp])
     apply (unfold docker_options_group_def, rule reach_Star0)
    apply (rule reach_Cat [OF reach_Star0])
    apply (rule reach_Cat [OF reach_Grp])
     apply (rule reach_Plus_class)
      apply (rule t1(1))
     apply (simp add: t1(2))
    apply (rule reach_Cat [OF reach_Plus_class])
      apply simp
    using sp apply simp
    apply (rule reach_Cat [OF reach_Grp])
     apply (rule reach_Plus_class)
      apply simp
    using dot apply simp
    apply (simp add: reach_Eps)
    done
  then show ?thesis
    unfolding isDockerExecCommand_def by (rule reach_rtest)
qed

lemma space_token_split:
  assumes "tok \<noteq> []" "\<forall>x\<in>set tok. \<not> is_space x" "is_space sp" "\<not> is_space e"
  shows "\<exists>ws t1 sp' ws' ch rest.
           a @ tok @ [sp] @ [e] @ b = ws @ t1 @ (sp' # ws') @ [ch] @ rest
           \<and> (\<forall>x\<in>set ws. is_space x) \<and> t1 \<noteq> [] \<and> (\<forall>x\<in>set t1. \<not> is_space x)
           \<and> is_space sp' \<and> (\<forall>x\<in>set ws'. is_space x) \<and> \<not> is_space ch"
proof (induction a)
  case Nil
  have "[] @ tok @ [sp] @ [e] @ b = [] @ tok @ (sp # []) @ [e] @ b
      \<and> (\<forall>x\<in>set []. is_space x) \<and> tok \<noteq> [] \<and> (\<forall>x\<in>set tok. \<not> is_space x)
      \<and> is_space sp \<and> (\<forall>x\<in>set []. is_space x) \<and> \<not> is_space e"
    using assms by simp
  then show ?case by blast
next
  case (Cons x a)
  then obtain ws t1 sp' ws' ch rest where
    eq: "a @ tok @ [sp] @ [e] @ b = ws @ t1 @ (sp' # ws') @ [ch] @ rest"
    and p: "\<forall>x\<in>set ws. is_space x" "t1 \<noteq> []" "\<forall>x\<in>set t1. \<not> is_space x"
       "is_space sp'" "\<forall>x\<in>set ws'. is_space x" "\<not> is_space ch"
    by blast
  show ?case
  proof (cases "is_space x")
    case True
    have "(x # a) @ tok @ [sp] @ [e] @ b = (x # ws) @ t1 @ (sp' # ws') @ [ch] @ rest
        \<and> (\<forall>y\<in>set (x # ws). is_space y) \<and> t1 \<noteq> [] \<and> (\<forall>x\<in>set t1. \<not> is_space x)
        \<and> is_space sp' \<and> (\<forall>x\<in>set ws'. is_space x) \<and> \<not> is_space ch"
      using eq True p by simp
    then show ?thesis by blast
  next
    case False
    show ?thesis
    proof (cases ws)
      case Nil
      have "(x # a) @ tok @ [sp] @ [e] @ b = [] @ (x # t1) @ (sp' # ws') @ [ch] @ rest
          \<and> (\<forall>y\<in>set []. is_space y) \<and> x # t1 \<noteq> [] \<and> (\<forall>y\<in>set (x # t1). \<not> is_space y)
          \<and> is_space sp' \<and> (\<forall>x\<in>set ws'. is_space x) \<and> \<not> is_space ch"
        using eq Nil False p by simp
      then show ?thesis by blast
    next
      case (Cons w ws1)
      obtain h t where t1: "t1 = h # t"
        using p(2) by (cases t1) auto
      have "(x # a) @ tok @ [sp] @ [e] @ b
              = [] @ [x] @ (w # ws1) @ [h] @ (t @ (sp' # ws') @ [ch] @ rest)
          \<and> (\<forall>y\<in>set []. is_space y) \<and> [x] \<noteq> [] \<and> (\<forall>y\<in>set [x]. \<not> is_space y)
          \<and> is_space w \<and> (\<forall>y\<in>set ws1. is_space y) \<and> \<not> is_space h"
        using eq Cons t1 False p by simp
      then show ?thesis by blast
    qed
  qed
qed

lemma trimEnd_append:
  "p \<noteq> [] \<Longrightarrow> \<not> is_space (last p) \<Longrightarrow> trimEnd (p @ q) = p @ trimEnd q"
proof -
  assume p: "p \<noteq> []" "\<not> is_space (last p)"
  have rp: "dropWhile is_space (rev p) = rev p"
    using p by (cases "rev p") (auto simp: last_rev)
  show ?thesis
  proof (cases "\<forall>x\<in>set (rev q). is_space x")
    case True
    then have "dropWhile is_space (rev q @ rev p) = dropWhile is_space (rev p)"
      by (intro dropWhile_append2) blast
    moreover have "dropWhile is_space (rev q) = []"
      using True by simp
    ultimately show ?thesis by (simp add: trimEnd_def rp)
  next
    case False
    then obtain x where "x \<in> set (rev q)" "\<not> is_space x"
      by blast
    then have "dropWhile is_space (rev q @ rev p) = dropWhile is_space (rev q) @ rev p"
      by (rule dropWhile_append1)
    then show ?thesis by (simp add: trimEnd_def)
  qed
qed

lemma isDockerExec_twice:
  assumes "is_space m"
  shows "isDockerExecCommand (trim (''docker exec'' @ (m # M) @ ''docker exec'' @ N))"
proof -
  have "trim (''docker exec'' @ (m # M) @ ''docker exec'' @ N)
          = trimEnd ((''docker exec'' @ (m # M) @ ''docker exec'') @ N)"
    by (simp add: trim_def trimStart_def is_space_def)
  also have "\<dots> = (''docker exec'' @ (m # M) @ ''docker exec'') @ trimEnd N"
    by (rule trimEnd_append) (simp_all add: is_space_def)
  finally have z: "trim (''docker exec'' @ (m # M) @ ''docker exec'' @ N)
      = ''docker'' @ '' '' @ ''exec'' @ ((m # M) @ ''docker'' @ [CHR '' ''] @ [CHR ''e''] @ (''xec'' @ trimEnd N))"
    by simp
  obtain ws t1 sp' ws' ch rest where
    eq: "(m # M) @ ''docker'' @ [CHR '' ''] @ [CHR ''e''] @ (''xec'' @ trimEnd N)
           = ws @ t1 @ (sp' # ws') @ [ch] @ rest"
    and p: "\<forall>x\<in>set ws. is_space x" "t1 \<noteq> []" "\<forall>x\<in>set t1. \<not> is_space x"
       "is_space sp'" "\<forall>x\<in>set ws'. is_space x" "\<not> is_space ch"
  proof -
    have "''docker'' \<noteq> []" "\<forall>x\<in>set ''docker''. \<not> is_space x" "is_space CHR '' ''"
      "\<not> is_space CHR ''e''"
      by (simp_all add: is_space_def)
    from space_token_split [OF this, of "m # M" "''xec'' @ trimEnd N"] that
    show ?thesis by blast
  qed
  have "ws \<noteq> []"
  proof
    assume "ws = []"
    with eq obtain t where "t1 = m # t"
      using p(2) by (cases t1) auto
    with p(3) assms show False by simp
  qed
  then show ?thesis
    unfolding z eq using p by (intro docker_exec_shape) simp_all
qed

lemma sessionOptions_space: "sessionOptions session = [] \<or> (\<exists>t. sessionOptions session = CHR '' '' # t)"
proof (cases session)
  case None
  then show ?thesis by (simp add: sessionOptions_def)
next
  case (Some ss)
  show ?thesis
  proof (cases "environment ss")
    case Nil
    then show ?thesis using Some by (simp add: sessionOptions_def)
  next
    case (Cons kv kvs)
    then show ?thesis using Some by (cases kv) (simp add: sessionOptions_def)
  qed
qed

lemma buildContainerExecCommand_shape:
  "\<exists>M. buildContainerExecCommand name command session False
         = ''docker exec'' @ (CHR '' '' # M) @ command"
  using sessionOptions_space [of session]
  by (auto simp: buildContainerExecCommand_def)

lemma pc_type_parseCompoundCommand: "pc_type (parseCompoundCommand command) = compound"
  by (simp add: parseCompoundCommand_def Let_def split: prod.splits)

lemma regular_not_docker_exec:
  "pc_type (parseCommand command) = regular \<Longrightarrow> \<not> isDockerExecCommand (trim command)"
  by (simp add: parseCommand_def Let_def pc_type_parseCompoundCommand split: if_splits)

lemma wrapped_twice: "\<not> wraps s connectionId (wrapped s connectionId (wrapped s connectionId command))"
proof -
  obtain M where 1: "wrapped s connectionId command = ''docker exec'' @ (CHR '' '' # M) @ command"
    unfolding wrapped_def Let_def using buildContainerExecCommand_shape by blast
  obtain M' where 2: "wrapped s connectionId (wrapped s connectionId command)
      = ''docker exec'' @ (CHR '' '' # M') @ wrapped s connectionId command"
    unfolding wrapped_def [of s connectionId "wrapped s connectionId command"] Let_def
    using buildContainerExecCommand_shape by blast
  have "isDockerExecCommand (trim (wrapped s connectionId (wrapped s connectionId command)))"
    unfolding 2 unfolding 1
    using isDockerExec_twice [of "CHR '' ''" M' "(CHR '' '' # M) @ command"]
    by (simp add: is_space_def)
  then show ?thesis
    using regular_not_docker_exec unfolding wraps_def by blast
qed

function executeCommand ::
  "world \<Rightarrow> int \<Rightarrow> SSHService \<Rightarrow> string \<Rightarrow> string \<Rightarrow> ExecOptions
     \<Rightarrow> SSHService \<times> (error + CommandResult)" where
  "executeCommand w now s connectionId command options =
     (case connections s connectionId of
        None \<Rightarrow> (s, Inl (ConnectionUnavailable connectionId))
      | Some connection \<Rightarrow>
          if \<not> usable connection then (s, Inl (ConnectionUnavailable connectionId))
          else
            (let parsedCommand = parseCommand command in
             if needsContainerContext parsedCommand = Some True
             then caught (executeDockerContextCommand w now s connectionId parsedCommand options)
             else if wraps s connectionId command
             then caught (executeCommand w now s connectionId (wrapped s connectionId command) options)
             else executeDirect w now s connection connectionId command parsedCommand options))"
  by pat_completeness auto
termination
proof (relation "measure (\<lambda>(w, now, s, connectionId, command, options).
    if wraps s connectionId command
    then (if wraps s connectionId (wrapped s connectionId command) then 2 else 1) else 0)")
  show "wf (measure (\<lambda>(w, now, s, connectionId, command, options).
    if wraps s connectionId command
    then (if wraps s connectionId (wrapped s connectionId command) then 2 else 1) else (0::nat)))"
    by simp
next
  fix w :: world and now :: int and s connectionId command and options :: ExecOptions
    and x2 xa
  assume "wraps s connectionId command"
  then show "((w, now, s, connectionId, wrapped s connectionId command, options),
              (w, now, s, connectionId, command, options))
            \<in> measure (\<lambda>(w, now, s, connectionId, command, options).
                 if wraps s connectionId command
                 then (if wraps s connectionId (wrapped s connectionId command) then 2 else 1) else 0)"
    using wrapped_twice [of s connectionId command] by simp
qed

declare executeCommand.simps [simp del]

section \<open>The \<open>executeCommand\<close> tool of SshMCP\<close>

text \<open>
  The handler up to the point where \<open>sshService.executeCommand\<close> has run the command.
  The text of a result is kept as the template it is built from, with the values the
  template interpolates; how the result of the command is laid out as text afterwards
  (the prompt line, the tmux summaries, the length limit) is not part of the model:
  \<open>CommandOutput\<close> stands for that text.
\<close>

record SshMCP =
  sshService :: SSHService
  activeConnections :: "string \<rightharpoonup> int"

datatype ToolText =
    ConnectionNotFound string
  | ConnectionNotConnected string
  | TmuxBlocked string string string string
  | ExecutionError string
  | CommandOutput CommandResult

record ToolResult =
  content :: ToolText
  isError :: bool

text \<open>\<^verbatim>\<open>/tmux\s+send-keys\s+(?:-t\s+)?["']?([^"'\s]+)["']?\s+["']?(.+?)["']?\s+(?:Enter|C-m)/i\<close>\<close>

definition tmuxSendKeysRegex :: regex where
  "tmuxSendKeysRegex =
     Cats [Str ''tmux'', Plus (Atom Space), Str ''send-keys'', Plus (Atom Space),
       Opt (Cat (Str ''-t'') (Plus (Atom Space))),
       Opt (Atom quote_class),
       Grp 1 (Plus (Atom (NoneOf [Lit (CHR 0x22), Lit (CHR 0x27), Space]))),
       Opt (Atom quote_class),
       Plus (Atom Space),
       Opt (Atom quote_class),
       Grp 2 (LazyPlus (Atom Dot)),
       Opt (Atom quote_class),
       Plus (Atom Space),
       Alt (Str ''Enter'') (Str ''C-m'')]"

text \<open>The session name: capture 1 of the match, if the command matches.\<close>

definition tmuxSendKeysSession :: "string \<Rightarrow> string option" where
  "tmuxSendKeysSession command =
     (case rexec True tmuxSendKeysRegex command of
        None \<Rightarrow> None
      | Some m \<Rightarrow> map_of (snd m) 1)"

text \<open>\<^verbatim>\<open>/^(vim|nano|less|more|top|htop|man)$/.test(currentCommand)\<close>: the whole string is
  one of the names.  An \<open>undefined\<close> \<open>currentCommand\<close> is tested as the string
  \<open>undefined\<close>.\<close>

definition interactivePrograms :: "string list" where
  "interactivePrograms = [''vim'', ''nano'', ''less'', ''more'', ''top'', ''htop'', ''man'']"

definition isInteractiveProgram :: "string option \<Rightarrow> bool" where
  "isInteractiveProgram currentCommand =
     ((case currentCommand of None \<Rightarrow> ''undefined'' | Some c \<Rightarrow> c) \<in> set interactivePrograms)"

definition listPanesCommand :: "string \<Rightarrow> string" where
  "listPanesCommand sessionName =
     ''tmux list-panes -t '' @ sessionName @ '' -F '' @ [CHR 0x22]
       @ ''#{pane_pid} #{pane_current_command}'' @ [CHR 0x22]"

definition processStateCommand :: "string \<Rightarrow> string" where
  "processStateCommand panePid = ''ps -o state= -p '' @ panePid"

definition childrenCommand :: "string \<Rightarrow> string" where
  "childrenCommand panePid = ''pgrep -P '' @ panePid"

definition processInfoCommand :: "string \<Rightarrow> string" where
  "processInfoCommand panePid = ''ps -o pid,ppid,stat,time,command -p '' @ panePid"

definition capturePaneCommand :: "string \<Rightarrow> string" where
  "capturePaneCommand sessionName = ''tmux capture-pane -p -t '' @ sessionName @ '' -S -10''"

text \<open>\<open>const [panePid, currentCommand] = checkResult.stdout.trim().split(' ')\<close>\<close>

definition paneFields :: "string \<Rightarrow> string \<times> string option" where
  "paneFields out =
     (case split_on CHR '' '' (trim out) of
        [] \<Rightarrow> ([], None)
      | [panePid] \<Rightarrow> (panePid, None)
      | panePid # currentCommand # _ \<Rightarrow> (panePid, Some currentCommand))"

text \<open>A call inside the \<open>try\<close> block that looks at the pane: if it throws, the block is
  left, the \<open>catch\<close> only logs, and the handler goes on to run the command.\<close>

definition orSkip ::
  "SSHService \<times> (error + 'a) \<Rightarrow> (SSHService \<Rightarrow> 'a \<Rightarrow> SSHService \<times> 'b option)
     \<Rightarrow> SSHService \<times> 'b option" where
  "orSkip r k = (case r of (s, Inl e) \<Rightarrow> (s, None) | (s, Inr x) \<Rightarrow> k s x)"

text \<open>\<open>isBlocked\<close>: the children of the pane's process are asked for only when the state
  and the command do not decide.\<close>

definition isBlocked ::
  "world \<Rightarrow> int \<Rightarrow> SSHService \<Rightarrow> string \<Rightarrow> string \<Rightarrow> string \<Rightarrow> string option
     \<Rightarrow> SSHService \<times> bool option" where
  "isBlocked w now s connectionId panePid processState currentCommand =
     (if processState = ''D'' \<or> processState = ''T'' \<or> processState = ''W''
         \<or> isInteractiveProgram currentCommand
      then (s, Some True)
      else
        orSkip (executeCommand w now s connectionId (childrenCommand panePid)
                  \<lparr>cwd = None, timeout = Some 3000\<rparr>)
          (\<lambda>s' children. (s', Some (trim (stdout children) \<noteq> []))))"

text \<open>The \<open>try\<close> block that looks at the pane before keys are sent to it.  Its result is
  the tool's result when the pane is blocked, and \<open>None\<close> when the handler goes on: the
  pane is not blocked, it could not be looked at, or a call threw.\<close>

definition blockedResult :: "string \<Rightarrow> string \<Rightarrow> CommandResult \<Rightarrow> CommandResult \<Rightarrow> ToolResult" where
  "blockedResult sessionName panePid processInfo contextOutput =
     \<lparr>content = TmuxBlocked sessionName (stdout contextOutput) (stdout processInfo) panePid,
      isError = True\<rparr>"

definition reportBlocked ::
  "world \<Rightarrow> int \<Rightarrow> SSHService \<Rightarrow> string \<Rightarrow> string \<Rightarrow> string \<Rightarrow> SSHService \<times> ToolResult option" where
  "reportBlocked w now s connectionId sessionName panePid =
     orSkip (executeCommand w now s connectionId (processInfoCommand panePid)
               \<lparr>cwd = None, timeout = Some 3000\<rparr>)
       (\<lambda>s4 processInfo.
          orSkip (executeCommand w now s4 connectionId (capturePaneCommand sessionName)
                    \<lparr>cwd = None, timeout = Some 3000\<rparr>)
            (\<lambda>s5 contextOutput.
               (s5, Some (blockedResult sessionName panePid processInfo contextOutput))))"

definition tmuxBlockedCheck ::
  "world \<Rightarrow> int \<Rightarrow> SSHService \<Rightarrow> string \<Rightarrow> string \<Rightarrow> string option
     \<Rightarrow> SSHService \<times> ToolResult option" where
  "tmuxBlockedCheck w now s connectionId sessionName cwd' =
     orSkip (executeCommand w now s connectionId (listPanesCommand sessionName)
               \<lparr>cwd = cwd', timeout = Some 5000\<rparr>)
       (\<lambda>s1 checkResult.
          if stdout checkResult = [] then (s1, None)
          else
            (case paneFields (stdout checkResult) of
               (panePid, currentCommand) \<Rightarrow>
                 if panePid = [] then (s1, None)
                 else
                   orSkip (executeCommand w now s1 connectionId (processStateCommand panePid)
                             \<lparr>cwd = None, timeout = Some 3000\<rparr>)
                     (\<lambda>s2 processResult.
                        (case isBlocked w now s2 connectionId panePid
                                (trim (stdout processResult)) currentCommand of
                           (s3, Some True) \<Rightarrow> reportBlocked w now s3 connectionId sessionName panePid
                         | (s3, _) \<Rightarrow> (s3, None)))))"

definition executeCommandTool ::
  "world \<Rightarrow> int \<Rightarrow> SshMCP \<Rightarrow> string \<Rightarrow> string \<Rightarrow> string option \<Rightarrow> int option \<Rightarrow> bool option
     \<Rightarrow> SshMCP \<times> ToolResult" where
  "executeCommandTool w now t connectionId command cwd' timeout' force =
     (case connections (sshService t) connectionId of
        None \<Rightarrow> (t, \<lparr>content = ConnectionNotFound connectionId, isError = True\<rparr>)
      | Some connection \<Rightarrow>
          if status connection \<noteq> CONNECTED then
            (t, \<lparr>content =
                   ConnectionNotConnected
                     (if truthy (conn_name connection) then the (conn_name connection)
                      else connectionId),
                 isError = True\<rparr>)
          else
            (let t1 = t\<lparr>activeConnections := (activeConnections t)(connectionId \<mapsto> now)\<rparr> in
             case (case tmuxSendKeysSession command of
                     Some sessionName \<Rightarrow>
                       if force \<noteq> Some True
                       then tmuxBlockedCheck w now (sshService t1) connectionId sessionName cwd'
                       else (sshService t1, None)
                   | None \<Rightarrow> (sshService t1, None)) of
               (s1, Some blocked) \<Rightarrow> (t1\<lparr>sshService := s1\<rparr>, blocked)
             | (s1, None) \<Rightarrow>
                 (case executeCommand w now s1 connectionId command
                         \<lparr>cwd = cwd', timeout = timeout'\<rparr> of
                    (s2, Inl e) \<Rightarrow>
                      (t1\<lparr>sshService := s2\<rparr>,
                       \<lparr>content = ExecutionError (message e), isError = True\<rparr>)
                  | (s2, Inr result) \<Rightarrow>
                      (t1\<lparr>sshService := s2\<rparr>,
                       \<lparr>content = CommandOutput result, isError = False\<rparr>))))"

section \<open>Example worlds and states\<close>

text \<open>A connected connection \<open>c1\<close> of user \<open>u\<close> on host \<open>h\<close> with password \<open>p\<close>, and a
  remote that answers every command with the command itself on standard output.\<close>

definition echoWorld :: world where
  "echoWorld =
     \<lparr>remote_exec = (\<lambda>log call. Resolves \<lparr>stdout = ex_command call, stderr = [], code = 0\<rparr>),
      COMMAND_TIMEOUT = None, clock = (\<lambda>now log. now + int (length log))\<rparr>"

definition exampleConnection :: SSHConnection where
  "exampleConnection =
     \<lparr>conn_id = ''c1'', conn_name = None,
      config = \<lparr>host = ''h'', port = None, username = ''u'', password = Some ''p'',
                privateKey = None, passphrase = None, keepaliveInterval = None,
                readyTimeout = None, reconnect = None, reconnectTries = None,
                reconnectDelay = None\<rparr>,
      status = CONNECTED, lastUsed = Some 5, lastError = None, client = Some 0, tags = None,
      currentDirectory = Some ''/home/u''\<rparr>"

definition exampleService :: SSHService where
  "exampleService =
     \<lparr>connections = [''c1'' \<mapsto> exampleConnection], credentialStore = Map.empty,
      isDocker = False, containerSessions = [], exec_log = []\<rparr>"

definition exampleMCP :: SshMCP where
  "exampleMCP = \<lparr>sshService = exampleService, activeConnections = Map.empty\<rparr>"

definition noOptions :: ExecOptions where
  "noOptions = \<lparr>cwd = None, timeout = None\<rparr>"




section \<open>SshMCP.limitOutputLength\<close>

text \<open>
  \<^verbatim>\<open>private limitOutputLength(text, maxLength = 10000, targetLength = 6000)\<close>.
  \<open>substring\<close> clamps a negative start to 0, which is what \<^const>\<open>drop\<close> does with the
  truncating subtraction of \<^typ>\<open>nat\<close>; \<open>omittedLength\<close> is not clamped, so it is an
  \<^typ>\<open>int\<close>.
\<close>

definition omittedMessage :: "int \<Rightarrow> string" where
  "omittedMessage omittedLength =
     NL @ NL @ ''... '' @ zh [0xE5, 0xB7, 0xB2, 0xE7, 0x9C, 0x81, 0xE7, 0x95, 0xA5] @ '' ''
       @ show_int omittedLength @ '' ''
       @ zh [0xE4, 0xB8, 0xAA, 0xE5, 0xAD, 0x97, 0xE7, 0xAC, 0xA6] @ '' ...'' @ NL
     @ zh [0xE5, 0xA6, 0x82, 0xE9, 0x9C, 0x80, 0xE6, 0x9F, 0xA5, 0xE7, 0x9C, 0x8B, 0xE5, 0xAE,
           0x8C, 0xE6, 0x95, 0xB4, 0xE8, 0xBE, 0x93, 0xE5, 0x87, 0xBA, 0xEF, 0xBC, 0x8C, 0xE5,
           0x8F, 0xAF, 0xE6, 0xB7, 0xBB, 0xE5, 0x8A, 0xA0, 0xE4, 0xBB, 0xA5, 0xE4, 0xB8, 0x8B,
           0xE5, 0x8F, 0x82, 0xE6, 0x95, 0xB0, 0xEF, 0xBC, 0x9A] @ NL
     @ ''- '' @ zh [0xE4, 0xBD, 0xBF, 0xE7, 0x94, 0xA8] @ '' > output.txt ''
       @ zh [0xE5, 0xB0, 0x86, 0xE8, 0xBE, 0x93, 0xE5, 0x87, 0xBA, 0xE4, 0xBF, 0x9D, 0xE5, 0xAD,
             0x98, 0xE5, 0x88, 0xB0, 0xE6, 0x96, 0x87, 0xE4, 0xBB, 0xB6] @ NL
     @ ''- '' @ zh [0xE4, 0xBD, 0xBF, 0xE7, 0x94, 0xA8] @ '' | head -n ''
       @ zh [0xE6, 0x95, 0xB0, 0xE5, 0xAD, 0x97] @ '' ''
       @ zh [0xE6, 0x9F, 0xA5, 0xE7, 0x9C, 0x8B, 0xE5, 0x89, 0x8D, 0xE5, 0x87, 0xA0, 0xE8, 0xA1,
             0x8C] @ NL
     @ ''- '' @ zh [0xE4, 0xBD, 0xBF, 0xE7, 0x94, 0xA8] @ '' | tail -n ''
       @ zh [0xE6, 0x95, 0xB0, 0xE5, 0xAD, 0x97] @ '' ''
       @ zh [0xE6, 0x9F, 0xA5, 0xE7, 0x9C, 0x8B, 0xE5, 0x90, 0x8E, 0xE5, 0x87, 0xA0, 0xE8, 0xA1,
             0x8C] @ NL
     @ ''- '' @ zh [0xE4, 0xBD, 0xBF, 0xE7, 0x94, 0xA8] @ '' | grep '' @ [CHR 0x22]
       @ zh [0xE5, 0x85, 0xB3, 0xE9, 0x94, 0xAE, 0xE8, 0xAF, 0x8D] @ [CHR 0x22] @ '' ''
       @ zh [0xE8, 0xBF, 0x87, 0xE6, 0xBB, 0xA4, 0xE5, 0x8C, 0x85, 0xE5, 0x90, 0xAB, 0xE7, 0x89,
             0xB9, 0xE5, 0xAE, 0x9A, 0xE5, 0x86, 0x85, 0xE5, 0xAE, 0xB9, 0xE7, 0x9A, 0x84, 0xE8,
             0xA1, 0x8C] @ NL @ NL"

definition limitOutputLength :: "string \<Rightarrow> nat \<Rightarrow> nat \<Rightarrow> string" where
  "limitOutputLength text maxLength targetLength =
     (if length text \<le> maxLength then text
      else
        let halfTargetLength = targetLength div 2;
            prefix = take halfTargetLength text;
            suffix = drop (length text - halfTargetLength) text;
            omittedLength = int (length text) - int targetLength
        in prefix @ omittedMessage omittedLength @ suffix)"

text \<open>Both call sites pass the text alone, so the defaults apply.\<close>

definition limitOutput :: "string \<Rightarrow> string" where
  "limitOutput text = limitOutputLength text 10000 6000"

section \<open>What the handler sees of a tmux pane\<close>



text \<open>The segments of a compound command: the parts between the separators, trimmed,
  without the empty ones.\<close>

definition segments :: "string \<Rightarrow> string list" where
  "segments command =
     filter (\<lambda>p. p \<noteq> []) (map trim (rsplit False COMPOUND_SEPARATORS command))"

text \<open>A segment that is taken as a \<open>docker exec\<close> command: it matches the pattern and its
  words parse.\<close>

definition isExecSegment :: "string \<Rightarrow> bool" where
  "isExecSegment p = (isDockerExecCommand p \<and> parseDockerExecCommand p \<noteq> None)"

text \<open>
  The splitting in the words of the claim: the text is cut at every \<open>&&\<close>, \<open>||\<close> and \<open>;\<close>,
  read from the left; the segments are the pieces between the cuts, trimmed, without the
  empty ones.  \<open>acc\<close> is the piece since the last cut.
\<close>

fun cut_from :: "string \<Rightarrow> string \<Rightarrow> string list" where
  "cut_from acc [] = [acc]"
| "cut_from acc [c] = (if c = CHR '';'' then [acc, []] else [acc @ [c]])"
| "cut_from acc (c # d # cs) =
     (if (c = CHR ''&'' \<and> d = CHR ''&'') \<or> (c = CHR ''|'' \<and> d = CHR ''|'')
      then acc # cut_from [] cs
      else if c = CHR '';'' then acc # cut_from [] (d # cs)
      else cut_from (acc @ [c]) (d # cs))"

definition pieces :: "string \<Rightarrow> string list" where
  "pieces command = filter (\<lambda>p. p \<noteq> []) (map trim (cut_from [] command))"




section \<open>Properties\<close>

subsection \<open>Strings\<close>

lemma startsWith_iff: "startsWith s p \<longleftrightarrow> (\<exists>r. s = p @ r)"
  by (induction s p rule: startsWith.induct) auto

lemma str_includes_iff: "str_includes s p \<longleftrightarrow> (\<exists>a b. s = a @ p @ b)"
proof (induction s)
  case Nil
  show ?case by auto
next
  case (Cons c cs)
  show ?case
  proof
    assume "str_includes (c # cs) p"
    then consider "startsWith (c # cs) p" | "str_includes cs p"
      by auto
    then show "\<exists>a b. c # cs = a @ p @ b"
    proof cases
      case 1
      then obtain r where "c # cs = p @ r"
        unfolding startsWith_iff by blast
      then have "c # cs = [] @ p @ r" by simp
      then show ?thesis by blast
    next
      case 2
      then obtain a b where "cs = a @ p @ b"
        using Cons.IH by blast
      then have "c # cs = (c # a) @ p @ b" by simp
      then show ?thesis by blast
    qed
  next
    assume "\<exists>a b. c # cs = a @ p @ b"
    then obtain a b where ab: "c # cs = a @ p @ b"
      by blast
    show "str_includes (c # cs) p"
    proof (cases a)
      case Nil
      with ab have "startsWith (c # cs) p"
        unfolding startsWith_iff by auto
      then show ?thesis by simp
    next
      case (Cons x a')
      with ab have "cs = a' @ p @ b" by simp
      then have "str_includes cs p"
        using Cons.IH by blast
      then show ?thesis by simp
    qed
  qed
qed



subsection \<open>The output truncator\<close>

lemma omittedMessage_mentions:
  "\<exists>before after. omittedMessage n = before @ show_int n @ after"
  unfolding omittedMessage_def by (metis append.assoc)

text \<open>
  C6.  A text of more than 10 000 characters is returned as its first 3 000 characters,
  then the elision marker, which holds the decimal count of the omitted characters
  (the length less 6 000), then its last 3 000 characters; a text of at most 10 000
  characters is returned as it is.
\<close>

theorem limitOutput_truncates:
  "(10000 < length text \<longrightarrow>
      limitOutput text =
        take 3000 text @ omittedMessage (int (length text) - 6000) @ drop (length text - 3000) text
      \<and> length (take 3000 text) = 3000
      \<and> length (drop (length text - 3000) text) = 3000
      \<and> (\<exists>before after.
            omittedMessage (int (length text) - 6000) =
              before @ show_nat (length text - 6000) @ after))
   \<and> (length text \<le> 10000 \<longrightarrow> limitOutput text = text)"
proof (intro conjI impI)
  assume long: "10000 < length text"
  show "limitOutput text =
      take 3000 text @ omittedMessage (int (length text) - 6000) @ drop (length text - 3000) text"
    using long by (simp add: limitOutput_def limitOutputLength_def Let_def)
  show "length (take 3000 text) = 3000" "length (drop (length text - 3000) text) = 3000"
    using long by simp_all
  have "show_int (int (length text) - 6000) = show_nat (length text - 6000)"
    using long by (simp add: show_int_def nat_diff_distrib')
  then show "\<exists>before after.
      omittedMessage (int (length text) - 6000) = before @ show_nat (length text - 6000) @ after"
    using omittedMessage_mentions [of "int (length text) - 6000"] by simp
next
  assume "length text \<le> 10000"
  then show "limitOutput text = text"
    by (simp add: limitOutput_def limitOutputLength_def)
qed

theorem limitOutput_truncates_witness:
  "limitOutput (replicate 10001 CHR ''a'') =
     replicate 3000 CHR ''a'' @ omittedMessage 4001 @ replicate 3000 CHR ''a''
   \<and> (\<exists>before after. omittedMessage 4001 = before @ ''4001'' @ after)
   \<and> limitOutput ''hello'' = ''hello''"
proof -
  have s: "show_nat 4001 = ''4001''"
    by code_simp
  show ?thesis
    using limitOutput_truncates [of "replicate 10001 CHR ''a''"]
      limitOutput_truncates [of "''hello''"] s
    by simp
qed

subsection \<open>What a command leaves of the registry\<close>

text \<open>Running commands changes of a connection only the directory it tracks.\<close>

definition sameConnections :: "SSHService \<Rightarrow> SSHService \<Rightarrow> bool" where
  "sameConnections s s' =
     (\<forall>cid. map_option (\<lambda>c. c\<lparr>currentDirectory := None\<rparr>) (connections s' cid)
            = map_option (\<lambda>c. c\<lparr>currentDirectory := None\<rparr>) (connections s cid))"

lemma sameConnections_refl: "sameConnections s s"
  by (simp add: sameConnections_def)

lemma sameConnections_trans:
  "sameConnections s s1 \<Longrightarrow> sameConnections s1 s2 \<Longrightarrow> sameConnections s s2"
  by (simp add: sameConnections_def)

lemma sameConnections_eq: "connections s' = connections s \<Longrightarrow> sameConnections s s'"
  by (simp add: sameConnections_def)


lemma connections_execCommand [simp]: "connections (fst (execCommand w s call)) = connections s"
  by (simp add: execCommand_def)

lemma connections_touchContainer [simp]:
  "connections (touchContainer w now s cid d) = connections s"
  by (simp add: touchContainer_def)

lemma connections_getCurrentDirectory [simp]:
  "connections (fst (getCurrentDirectory w s cid)) = connections s"
  by (simp add: getCurrentDirectory_def execCommand_def split: option.splits ExecResponse.splits)


lemma fst_caught [simp]: "fst (caught x) = fst x"
  by (cases x) (auto simp: caught_def split: sum.splits)

lemma caught_id: "snd x = Inr r \<Longrightarrow> caught x = x"
  by (cases x) (auto simp: caught_def)

lemma connections_rememberContainer [simp]:
  "connections (rememberContainer w now s cid parsed) = connections s"
  by (simp add: rememberContainer_def split: list.splits)


lemma refreshDirectory_sameConnections:
  assumes "connections s connectionId = Some connection"
  shows "sameConnections s (fst (refreshDirectory w s connection connectionId command))"
proof (cases "startsWith (trim command) ''cd ''")
  case False
  then show ?thesis by (simp add: refreshDirectory_def sameConnections_refl)
next
  case True
  obtain s' r where g: "getCurrentDirectory w s connectionId = (s', r)"
    by (cases "getCurrentDirectory w s connectionId")
  then have "connections s' = connections s"
    using connections_getCurrentDirectory [of w s connectionId] by simp
  then show ?thesis
    using True g assms
    by (cases r) (simp_all add: refreshDirectory_def sameConnections_def)
qed

lemma executeDirect_sameConnections:
  assumes "connections s connectionId = Some connection"
  shows "sameConnections s
           (fst (executeDirect w now s connection connectionId command parsedCommand options))"
proof -
  obtain s1 resp where e: "execCommand w s (directCall w s connection command options) = (s1, resp)"
    by (cases "execCommand w s (directCall w s connection command options)")
  then have c1: "connections s1 = connections s"
    using connections_execCommand [of w s "directCall w s connection command options"] by simp
  show ?thesis
  proof (cases resp)
    case (Rejects msg)
    with e c1 show ?thesis
      by (simp add: executeDirect_def sameConnections_eq)
  next
    case (Resolves result)
    obtain s2 err where r: "refreshDirectory w s1 connection connectionId
        (sudoCommand s connection command) = (s2, err)"
      by (cases "refreshDirectory w s1 connection connectionId (sudoCommand s connection command)")
    have "sameConnections s1 s2"
      using refreshDirectory_sameConnections [of s1 connectionId connection w
          "sudoCommand s connection command"] c1 assms r by simp
    then have "sameConnections s s2"
      using c1 by (simp add: sameConnections_def)
    then have "sameConnections s (rememberContainer w now s2 connectionId parsedCommand)"
      by (simp add: sameConnections_def)
    with \<open>sameConnections s s2\<close> e Resolves r show ?thesis
      by (cases err) (simp_all add: executeDirect_def)
  qed
qed

lemma connections_runDockerCommands [simp]:
  "connections (fst (runDockerCommands w now connection cid parsed options ds (s, acc)))
     = connections s"
proof (induction ds arbitrary: s acc)
  case Nil
  show ?case by simp
next
  case (Cons d ds)
  show ?case
    using Cons.IH
    by (auto simp: Let_def split: prod.splits ExecResponse.splits
        dest!: arg_cong [where f = "\<lambda>x. connections (fst x)"])
qed

lemma connections_executeDockerContextCommand [simp]:
  "connections (fst (executeDockerContextCommand w now s cid parsed options)) = connections s"
  unfolding executeDockerContextCommand_def Let_def
  by (auto split: prod.splits ExecResponse.splits option.splits
      dest!: arg_cong [where f = "\<lambda>x. connections (fst x)"])

lemma executeCommand_sameConnections:
  "sameConnections s (fst (executeCommand w now s connectionId command options))"
proof (induction w now s connectionId command options rule: executeCommand.induct)
  case (1 w now s connectionId command options)
  show ?case
  proof (cases "connections s connectionId")
    case None
    then show ?thesis
      by (subst executeCommand.simps) (simp add: sameConnections_refl)
  next
    case (Some connection)
    show ?thesis
    proof (cases "usable connection")
      case False
      with Some show ?thesis
        by (subst executeCommand.simps) (simp add: sameConnections_refl)
    next
      case True
      show ?thesis
      proof (cases "needsContainerContext (parseCommand command) = Some True")
        case ctx: True
        with Some True show ?thesis
          by (subst executeCommand.simps) (simp add: Let_def sameConnections_eq)
      next
        case ctx: False
        show ?thesis
        proof (cases "wraps s connectionId command")
          case w: True
          from "1.IH" [OF Some _ refl ctx w] True
          have "sameConnections s
            (fst (executeCommand w now s connectionId (wrapped s connectionId command) options))"
            by simp
          with Some True ctx w show ?thesis
            by (subst executeCommand.simps) (simp add: Let_def)
        next
          case w: False
          with Some True ctx show ?thesis
            by (subst executeCommand.simps)
              (simp add: Let_def executeDirect_sameConnections)
        qed
      qed
    qed
  qed
qed

lemma executeCommand_unusable:
  assumes "\<forall>c. connections s connectionId = Some c \<longrightarrow> \<not> usable c"
  shows "executeCommand w now s connectionId command options
           = (s, Inl (ConnectionUnavailable connectionId))"
  using assms by (subst executeCommand.simps) (auto split: option.splits)


lemma orSkip_sameConnections:
  assumes "sameConnections s0 (fst r)"
    and "\<And>s x. sameConnections s0 s \<Longrightarrow> sameConnections s0 (fst (k s x))"
  shows "sameConnections s0 (fst (orSkip r k))"
  using assms by (cases r) (auto simp: orSkip_def split: sum.splits)

lemma executeCommand_same_from:
  "sameConnections s0 s \<Longrightarrow> sameConnections s0 (fst (executeCommand w now s cid command options))"
  using executeCommand_sameConnections sameConnections_trans by blast

lemma isBlocked_sameConnections:
  "sameConnections s0 s \<Longrightarrow> sameConnections s0 (fst (isBlocked w now s cid pid st cur))"
  unfolding isBlocked_def
  by (auto intro!: orSkip_sameConnections executeCommand_same_from)

lemma reportBlocked_sameConnections:
  "sameConnections s0 s \<Longrightarrow> sameConnections s0 (fst (reportBlocked w now s cid sess pid))"
  unfolding reportBlocked_def
  by (intro orSkip_sameConnections executeCommand_same_from) simp_all

lemma tmuxBlockedCheck_sameConnections:
  "sameConnections s (fst (tmuxBlockedCheck w now s cid sess cwd'))"
  unfolding tmuxBlockedCheck_def
proof (intro orSkip_sameConnections executeCommand_same_from sameConnections_refl)
  fix s1 and checkResult :: CommandResult
  assume s1: "sameConnections s s1"
  obtain panePid currentCommand where pf: "paneFields (stdout checkResult) = (panePid, currentCommand)"
    by (cases "paneFields (stdout checkResult)")
  have "sameConnections s (fst (orSkip (executeCommand w now s1 cid (processStateCommand panePid)
                             \<lparr>cwd = None, timeout = Some 3000\<rparr>)
                     (\<lambda>s2 processResult.
                        (case isBlocked w now s2 cid panePid
                                (trim (stdout processResult)) currentCommand of
                           (s3, Some True) \<Rightarrow> reportBlocked w now s3 cid sess panePid
                         | (s3, _) \<Rightarrow> (s3, None)))))"
  proof (intro orSkip_sameConnections executeCommand_same_from s1)
    fix s2 and processResult :: CommandResult
    assume s2: "sameConnections s s2"
    obtain s3 b where ib: "isBlocked w now s2 cid panePid (trim (stdout processResult)) currentCommand = (s3, b)"
      by (cases "isBlocked w now s2 cid panePid (trim (stdout processResult)) currentCommand")
    have s3: "sameConnections s s3"
      using isBlocked_sameConnections [OF s2, of w now cid panePid "trim (stdout processResult)" currentCommand] ib
      by simp
    show "sameConnections s (fst (case isBlocked w now s2 cid panePid
                                (trim (stdout processResult)) currentCommand of
                           (s3, Some True) \<Rightarrow> reportBlocked w now s3 cid sess panePid
                         | (s3, _) \<Rightarrow> (s3, None)))"
      using ib s3 reportBlocked_sameConnections [OF s3]
      by (auto split: option.splits bool.splits)
  qed
  with s1 pf show "sameConnections s (fst (if stdout checkResult = [] then (s1, None)
          else
            (case paneFields (stdout checkResult) of
               (panePid, currentCommand) \<Rightarrow>
                 if panePid = [] then (s1, None)
                 else
                   orSkip (executeCommand w now s1 cid (processStateCommand panePid)
                             \<lparr>cwd = None, timeout = Some 3000\<rparr>)
                     (\<lambda>s2 processResult.
                        (case isBlocked w now s2 cid panePid
                                (trim (stdout processResult)) currentCommand of
                           (s3, Some True) \<Rightarrow> reportBlocked w now s3 cid sess panePid
                         | (s3, _) \<Rightarrow> (s3, None))))))"
    by simp
qed

lemma executeCommandTool_sameConnections:
  "sameConnections (sshService t)
     (sshService (fst (executeCommandTool w now t cid command cwd' timeout' force)))"
proof (cases "connections (sshService t) cid")
  case None
  then show ?thesis by (simp add: executeCommandTool_def sameConnections_refl)
next
  case (Some c)
  show ?thesis
  proof (cases "status c = CONNECTED")
    case False
    with Some show ?thesis by (simp add: executeCommandTool_def sameConnections_refl)
  next
    case True
    define t1 where "t1 = t\<lparr>activeConnections := (activeConnections t)(cid \<mapsto> now)\<rparr>"
    obtain s1 b where chk: "(case tmuxSendKeysSession command of
                     Some sessionName \<Rightarrow>
                       if force \<noteq> Some True
                       then tmuxBlockedCheck w now (sshService t1) cid sessionName cwd'
                       else (sshService t1, None)
                   | None \<Rightarrow> (sshService t1, None)) = (s1, b)"
      by (cases "(case tmuxSendKeysSession command of
                     Some sessionName \<Rightarrow>
                       if force \<noteq> Some True
                       then tmuxBlockedCheck w now (sshService t1) cid sessionName cwd'
                       else (sshService t1, None)
                   | None \<Rightarrow> (sshService t1, None))")
    have s1: "sameConnections (sshService t) s1"
    proof (cases "tmuxSendKeysSession command")
      case None
      with chk show ?thesis by (simp add: t1_def sameConnections_refl)
    next
      case (Some sess)
      show ?thesis
      proof (cases "force \<noteq> Some True")
        case False
        with chk Some show ?thesis by (simp add: t1_def sameConnections_refl)
      next
        case True
        with chk Some have "tmuxBlockedCheck w now (sshService t1) cid sess cwd' = (s1, b)"
          by simp
        then show ?thesis
          using tmuxBlockedCheck_sameConnections [of "sshService t1" w now cid sess cwd']
          by (simp add: t1_def)
      qed
    qed
    obtain s2 r where ex: "executeCommand w now s1 cid command \<lparr>cwd = cwd', timeout = timeout'\<rparr> = (s2, r)"
      by (cases "executeCommand w now s1 cid command \<lparr>cwd = cwd', timeout = timeout'\<rparr>")
    have s2: "sameConnections (sshService t) s2"
      using executeCommand_same_from [OF s1, of w now cid command "\<lparr>cwd = cwd', timeout = timeout'\<rparr>"] ex
      by simp
    show ?thesis
      using Some True chk ex s1 s2
      unfolding executeCommandTool_def Let_def t1_def [symmetric]
      by (cases b; cases r) simp_all
  qed
qed

text \<open>
  C9, as the code has it.  The tool answers with an error, and runs nothing, when the
  connection is not registered or its state is not \<open>connected\<close>, and the service
  throws unless the connection is registered, has a client and is \<open>connected\<close>.  For a
  connected connection the tool records the time of the call in its own map of active
  connections; the connection's \<open>lastUsed\<close> is left as it was.
\<close>

theorem executeCommand_gate:
  "(connections (sshService t) connectionId = None \<longrightarrow>
      executeCommandTool w now t connectionId command cwd' timeout' force
        = (t, \<lparr>content = ConnectionNotFound connectionId, isError = True\<rparr>))
   \<and> (\<forall>c. connections (sshService t) connectionId = Some c \<and> status c \<noteq> CONNECTED \<longrightarrow>
        fst (executeCommandTool w now t connectionId command cwd' timeout' force) = t
        \<and> isError (snd (executeCommandTool w now t connectionId command cwd' timeout' force)))
   \<and> ((\<forall>c. connections s connectionId = Some c \<longrightarrow> client c = None \<or> status c \<noteq> CONNECTED) \<longrightarrow>
        executeCommand w now s connectionId command options
          = (s, Inl (ConnectionUnavailable connectionId)))
   \<and> (\<forall>c. connections (sshService t) connectionId = Some c \<and> status c = CONNECTED \<longrightarrow>
        activeConnections (fst (executeCommandTool w now t connectionId command cwd' timeout' force))
          connectionId = Some now
        \<and> map_option lastUsed
            (connections
               (sshService (fst (executeCommandTool w now t connectionId command cwd' timeout' force)))
               connectionId)
          = Some (lastUsed c))"
proof (intro conjI allI impI)
  assume "connections (sshService t) connectionId = None"
  then show "executeCommandTool w now t connectionId command cwd' timeout' force
        = (t, \<lparr>content = ConnectionNotFound connectionId, isError = True\<rparr>)"
    by (simp add: executeCommandTool_def)
next
  fix c
  assume c: "connections (sshService t) connectionId = Some c \<and> status c \<noteq> CONNECTED"
  then show "fst (executeCommandTool w now t connectionId command cwd' timeout' force) = t"
    and "isError (snd (executeCommandTool w now t connectionId command cwd' timeout' force))"
    by (simp_all add: executeCommandTool_def)
next
  assume "\<forall>c. connections s connectionId = Some c \<longrightarrow> client c = None \<or> status c \<noteq> CONNECTED"
  then have "\<forall>c. connections s connectionId = Some c \<longrightarrow> \<not> usable c"
    by (auto simp: usable_def)
  then show "executeCommand w now s connectionId command options
          = (s, Inl (ConnectionUnavailable connectionId))"
    by (rule executeCommand_unusable)
next
  fix c
  assume c: "connections (sshService t) connectionId = Some c \<and> status c = CONNECTED"
  then show "activeConnections (fst (executeCommandTool w now t connectionId command cwd' timeout' force))
          connectionId = Some now"
    unfolding executeCommandTool_def Let_def
    by (auto split: prod.splits option.splits sum.splits)
  have "sameConnections (sshService t)
     (sshService (fst (executeCommandTool w now t connectionId command cwd' timeout' force)))"
    by (rule executeCommandTool_sameConnections)
  then have "map_option (\<lambda>c. c\<lparr>currentDirectory := None\<rparr>)
       (connections (sshService (fst (executeCommandTool w now t connectionId command cwd' timeout' force))) connectionId)
     = Some (c\<lparr>currentDirectory := None\<rparr>)"
    using c unfolding sameConnections_def by simp
  then obtain c' where c': "connections (sshService (fst (executeCommandTool w now t connectionId command cwd' timeout' force))) connectionId = Some c'"
    "c'\<lparr>currentDirectory := None\<rparr> = c\<lparr>currentDirectory := None\<rparr>"
    by auto
  from c'(2) have "lastUsed c' = lastUsed c"
    by (metis SSHConnection.select_convs(5) SSHConnection.surjective SSHConnection.update_convs(9))
  with c'(1) show "map_option lastUsed
            (connections
               (sshService (fst (executeCommandTool w now t connectionId command cwd' timeout' force)))
               connectionId)
          = Some (lastUsed c)"
    by simp
qed

theorem executeCommand_gate_witness:
  "executeCommandTool echoWorld 9 exampleMCP ''c2'' ''echo hi'' None None None
     = (exampleMCP, \<lparr>content = ConnectionNotFound ''c2'', isError = True\<rparr>)
   \<and> executeCommand echoWorld 9 exampleService ''c2'' ''echo hi'' noOptions
     = (exampleService, Inl (ConnectionUnavailable ''c2''))
   \<and> activeConnections (fst (executeCommandTool echoWorld 9 exampleMCP ''c1'' ''echo hi'' None None None))
        ''c1'' = Some 9
   \<and> map_option lastUsed
        (connections
           (sshService (fst (executeCommandTool echoWorld 9 exampleMCP ''c1'' ''echo hi'' None None None)))
           ''c1'')
      = Some (Some 5)"
proof -
  have 1: "connections (sshService exampleMCP) ''c2'' = None"
    "connections exampleService ''c2'' = None"
    by (simp_all add: exampleMCP_def exampleService_def)
  have 2: "connections (sshService exampleMCP) ''c1'' = Some exampleConnection"
    "status exampleConnection = CONNECTED" "lastUsed exampleConnection = Some 5"
    by (simp_all add: exampleMCP_def exampleService_def exampleConnection_def)
  show ?thesis
    using executeCommand_gate [of exampleMCP "''c2''" echoWorld 9 "''echo hi''" None None None
        exampleService noOptions] 1
      executeCommand_gate [of exampleMCP "''c1''" echoWorld 9 "''echo hi''" None None None
        exampleService noOptions] 2
    by simp
qed

text \<open>C9 as stated fails: a command run at time 9 on the example connection, last used
  at time 5, leaves \<open>lastUsed\<close> at 5.\<close>

theorem lastUsed_not_updated:
  "\<not> isError (snd (executeCommandTool echoWorld 9 exampleMCP ''c1'' ''echo hi'' None None None))
   \<and> map_option lastUsed
        (connections
           (sshService (fst (executeCommandTool echoWorld 9 exampleMCP ''c1'' ''echo hi'' None None None)))
           ''c1'')
      = Some (Some 5)
   \<and> map_option lastUsed
        (connections
           (sshService (fst (executeCommandTool echoWorld 9 exampleMCP ''c1'' ''echo hi'' None None None)))
           ''c1'')
      \<noteq> Some (Some 9)"
  by code_simp

subsection \<open>Failures inside \<open>executeCommand\<close>\<close>




lemma exec_log_touchContainer [simp]: "exec_log (touchContainer w now s cid d) = exec_log s"
  by (simp add: touchContainer_def)







subsection \<open>The tmux check before \<open>send-keys\<close>\<close>





subsection \<open>Compound commands\<close>

lemma classifyParts_segments:
  "classifyParts parts (dcs, regs, h)
     = (dcs @ map (the \<circ> parseDockerExecCommand)
                (filter isExecSegment (filter (\<lambda>p. p \<noteq> []) (map trim parts))),
        regs @ filter (\<lambda>p. \<not> isDockerExecCommand p) (filter (\<lambda>p. p \<noteq> []) (map trim parts)),
        h \<or> (\<exists>p\<in>set (filter (\<lambda>p. p \<noteq> []) (map trim parts)). isExecSegment p))"
proof (induction parts arbitrary: dcs regs h)
  case Nil
  show ?case by simp
next
  case (Cons part parts)
  show ?case
  proof (cases "trim part = []")
    case True
    then show ?thesis using Cons.IH by (simp add: Let_def)
  next
    case False
    show ?thesis
    proof (cases "isDockerExecCommand (trim part)")
      case no: False
      with False show ?thesis
        using Cons.IH [of dcs "regs @ [trim part]" h]
        by (simp add: Let_def isExecSegment_def)
    next
      case yes: True
      show ?thesis
      proof (cases "parseDockerExecCommand (trim part)")
        case None
        with False yes show ?thesis
          using Cons.IH [of dcs regs h] by (simp add: Let_def isExecSegment_def)
      next
        case (Some d)
        with False yes show ?thesis
          using Cons.IH [of "dcs @ [d]" regs True] by (simp add: Let_def isExecSegment_def)
      qed
    qed
  qed
qed

text \<open>The text after a separator at the head of \<open>t\<close>, if there is one.\<close>

definition after_sep :: "string \<Rightarrow> string option" where
  "after_sep t =
     (if startsWith t ''&&'' \<or> startsWith t ''||'' then Some (drop 2 t)
      else if startsWith t '';'' then Some (drop 1 t)
      else None)"

lemma rmatch_Str:
  "rmatch False (Str lit) (t, c) = (if startsWith t lit then [(drop (length lit) t, c)] else [])"
proof (induction lit arbitrary: t)
  case Nil
  show ?case by (simp add: Str_def rmatch.simps(1))
next
  case (Cons a lit)
  have s: "Str (a # lit) = Cat (Atom (Lit a)) (Str lit)"
    by (simp add: Str_def)
  show ?case
  proof (cases t)
    case Nil
    then show ?thesis by (simp add: s rmatch.simps(2,3))
  next
    case (Cons x xs)
    then show ?thesis
      using Cons.IH [of xs] by (simp add: s rmatch.simps(2,3))
  qed
qed

lemma rmatch_spaces:
  "rmatch i (Star True (Atom Space)) (s, c)
     = (case s of
          [] \<Rightarrow> [(s, c)]
        | x # xs \<Rightarrow> (if is_space x then rmatch i (Star True (Atom Space)) (xs, c) else [])
                    @ [(s, c)])"
  by (subst rmatch.simps(5)) (simp add: Let_def rmatch.simps(2) split: list.splits)

lemma rmatch_spaces_hd:
  "\<exists>rest. rmatch i (Star True (Atom Space)) (s, c) = (dropWhile is_space s, c) # rest"
proof (induction s)
  case Nil
  show ?case by (subst rmatch_spaces) simp
next
  case (Cons x xs)
  then show ?case
    by (subst rmatch_spaces) auto
qed

lemma concat_spaces:
  assumes "\<And>x xs. is_space x \<Longrightarrow> K (x # xs, c) = []"
  shows "concat (map K (rmatch i (Star True (Atom Space)) (s, c))) = K (dropWhile is_space s, c)"
proof (induction s)
  case Nil
  show ?case by (subst rmatch_spaces) simp
next
  case (Cons x xs)
  show ?case
    using Cons assms by (subst rmatch_spaces) simp
qed

lemma not_space_sep [simp]:
  "is_space x \<Longrightarrow> after_sep (x # xs) = None"
  by (auto simp: after_sep_def is_space_def)

lemma rmatch_sep:
  "rmatch False (Alt (Str ''&&'') (Alt (Str ''||'') (Str '';''))) (t, c)
     = (case after_sep t of None \<Rightarrow> [] | Some u \<Rightarrow> [(u, c)])"
proof -
  have "\<not> (startsWith t ''&&'' \<and> startsWith t ''||'')" "\<not> (startsWith t ''&&'' \<and> startsWith t '';'')"
    "\<not> (startsWith t ''||'' \<and> startsWith t '';'')"
    by (cases t; simp)+
  then show ?thesis
    by (auto simp: rmatch.simps(4) rmatch_Str after_sep_def numeral_2_eq_2)
qed

lemma concat_rmatch_Eps: "concat (map (rmatch i Eps) sts) = sts"
  by (induction sts) (simp_all add: rmatch.simps(1))

lemma rmatch_compound:
  "rmatch False COMPOUND_SEPARATORS (s, c)
     = (case after_sep (dropWhile is_space s) of
          None \<Rightarrow> []
        | Some u \<Rightarrow> rmatch False (Star True (Atom Space)) (u, c))"
proof -
  let ?K = "rmatch False (Cat (Alt (Str ''&&'') (Alt (Str ''||'') (Str '';'')))
                            (Cat (Star True (Atom Space)) Eps))"
  have K: "?K (t, c) = (case after_sep t of None \<Rightarrow> []
                        | Some u \<Rightarrow> rmatch False (Star True (Atom Space)) (u, c))" for t
    by (simp add: rmatch.simps(3) [of _ "Alt _ _"] rmatch_sep rmatch.simps(3) [of _ "Star _ _"]
        concat_rmatch_Eps split: option.splits)
  have "rmatch False COMPOUND_SEPARATORS (s, c)
      = concat (map ?K (rmatch False (Star True (Atom Space)) (s, c)))"
    by (simp add: COMPOUND_SEPARATORS_def Cats_def rmatch.simps(3) [of _ "Star _ _"])
  also have "\<dots> = ?K (dropWhile is_space s, c)"
    by (rule concat_spaces) (simp add: K)
  finally show ?thesis
    by (simp add: K)
qed


lemma rmatch_compound_empty:
  "rmatch False COMPOUND_SEPARATORS (s, c) = [] \<longleftrightarrow> after_sep (dropWhile is_space s) = None"
proof (cases "after_sep (dropWhile is_space s)")
  case None
  then show ?thesis by (simp add: rmatch_compound)
next
  case (Some u)
  obtain rest where "rmatch False (Star True (Atom Space)) (u, c) = (dropWhile is_space u, c) # rest"
    using rmatch_spaces_hd by blast
  with Some show ?thesis by (simp add: rmatch_compound)
qed

lemma after_sep_iff:
  "after_sep t \<noteq> None \<longleftrightarrow> (\<exists>b. t = ''&&'' @ b \<or> t = ''||'' @ b \<or> t = '';'' @ b)"
  unfolding after_sep_def by (auto simp: startsWith_iff)

lemma after_sep_dropWhile:
  "after_sep (dropWhile is_space (c # cs)) = None \<Longrightarrow> after_sep (c # cs) = None"
  by (cases "is_space c") simp_all

text \<open>A separator stands somewhere in the text.\<close>

definition sep_inside :: "string \<Rightarrow> bool" where
  "sep_inside s = (\<exists>a t. s = a @ t \<and> after_sep t \<noteq> None)"

lemma sep_inside_iff:
  "sep_inside s \<longleftrightarrow> (\<exists>a b. s = a @ ''&&'' @ b \<or> s = a @ ''||'' @ b \<or> s = a @ '';'' @ b)"
  unfolding sep_inside_def after_sep_iff by blast

lemma sep_inside_Nil [simp]: "\<not> sep_inside []"
  by (simp add: sep_inside_def after_sep_def)

lemma sep_inside_Cons:
  "sep_inside (c # cs) \<longleftrightarrow> after_sep (c # cs) \<noteq> None \<or> sep_inside cs"
proof
  assume "sep_inside (c # cs)"
  then obtain a t where at: "c # cs = a @ t" "after_sep t \<noteq> None"
    unfolding sep_inside_def by blast
  show "after_sep (c # cs) \<noteq> None \<or> sep_inside cs"
  proof (cases a)
    case Nil
    with at show ?thesis by simp
  next
    case (Cons x a')
    with at have "cs = a' @ t" by simp
    with at(2) show ?thesis unfolding sep_inside_def by blast
  qed
next
  assume "after_sep (c # cs) \<noteq> None \<or> sep_inside cs"
  then show "sep_inside (c # cs)"
  proof
    assume "after_sep (c # cs) \<noteq> None"
    then have "c # cs = [] @ (c # cs) \<and> after_sep (c # cs) \<noteq> None" by simp
    then show ?thesis unfolding sep_inside_def by blast
  next
    assume "sep_inside cs"
    then obtain a t where "cs = a @ t" "after_sep t \<noteq> None"
      unfolding sep_inside_def by blast
    then have "c # cs = (c # a) @ t \<and> after_sep t \<noteq> None" by simp
    then show ?thesis unfolding sep_inside_def by blast
  qed
qed

lemma sep_inside_dropWhile:
  "after_sep (dropWhile is_space s) \<noteq> None \<Longrightarrow> sep_inside s"
proof -
  assume "after_sep (dropWhile is_space s) \<noteq> None"
  moreover have "s = takeWhile is_space s @ dropWhile is_space s" by simp
  ultimately show ?thesis unfolding sep_inside_def by blast
qed

lemma isCompoundCommand_iff: "isCompoundCommand s \<longleftrightarrow> sep_inside s"
proof (induction s)
  case Nil
  show ?case
    by (simp add: isCompoundCommand_def rtest_def rmatch_compound after_sep_def)
next
  case (Cons c cs)
  show ?case
  proof (cases "after_sep (dropWhile is_space (c # cs))")
    case None
    then have "rmatch False COMPOUND_SEPARATORS (c # cs, []) = []"
      by (simp add: rmatch_compound_empty)
    then have "isCompoundCommand (c # cs) = isCompoundCommand cs"
      by (simp add: isCompoundCommand_def rtest_def)
    moreover have "after_sep (c # cs) = None"
      using None by (rule after_sep_dropWhile)
    ultimately show ?thesis
      using Cons by (simp add: sep_inside_Cons)
  next
    case (Some u)
    then have "rmatch False COMPOUND_SEPARATORS (c # cs, []) \<noteq> []"
      by (simp add: rmatch_compound_empty)
    then have "isCompoundCommand (c # cs)"
      by (auto simp: isCompoundCommand_def rtest_def split: list.splits)
    moreover have "sep_inside (c # cs)"
      using Some by (intro sep_inside_dropWhile) simp
    ultimately show ?thesis by simp
  qed
qed

lemma after_sep_length: "after_sep t = Some u \<Longrightarrow> length u < length t"
  by (cases t) (auto simp: after_sep_def split: if_splits)

lemma rsplit_from_compound:
  "rsplit_from False COMPOUND_SEPARATORS acc (c # cs)
     = (case after_sep (dropWhile is_space (c # cs)) of
          None \<Rightarrow> rsplit_from False COMPOUND_SEPARATORS (acc @ [c]) cs
        | Some u \<Rightarrow> acc # rsplit_from False COMPOUND_SEPARATORS [] (dropWhile is_space u))"
proof (cases "after_sep (dropWhile is_space (c # cs))")
  case None
  then have "rmatch False COMPOUND_SEPARATORS (c # cs, []) = []"
    by (simp add: rmatch_compound_empty)
  then show ?thesis
    using None by (subst rsplit_from.simps) simp
next
  case (Some u)
  obtain rest where r: "rmatch False COMPOUND_SEPARATORS (c # cs, [])
      = (dropWhile is_space u, []) # rest"
    using rmatch_spaces_hd [of False u "[]"] Some by (auto simp: rmatch_compound)
  have "length (dropWhile is_space u) \<le> length u"
    by (rule length_dropWhile_le)
  moreover have "length u < length (dropWhile is_space (c # cs))"
    using Some by (rule after_sep_length)
  moreover have "length (dropWhile is_space (c # cs)) \<le> length (c # cs)"
    by (rule length_dropWhile_le)
  ultimately have "length (dropWhile is_space u) < length (c # cs)"
    by linarith
  then show ?thesis
    using Some r by (subst rsplit_from.simps) simp
qed

lemma cut_sep: "after_sep t = Some u \<Longrightarrow> cut_from acc t = acc # cut_from [] u"
proof -
  assume a: "after_sep t = Some u"
  show ?thesis
  proof (cases t)
    case Nil
    with a show ?thesis by (simp add: after_sep_def)
  next
    case (Cons c cs)
    show ?thesis
    proof (cases cs)
      case Nil
      with a Cons show ?thesis
        by (auto simp: after_sep_def split: if_splits)
    next
      case (Cons d ds)
      with a \<open>t = c # cs\<close> show ?thesis
        by (auto simp: after_sep_def numeral_2_eq_2 split: if_splits)
    qed
  qed
qed

lemma cut_no_sep: "after_sep (c # cs) = None \<Longrightarrow> cut_from acc (c # cs) = cut_from (acc @ [c]) cs"
  by (cases cs) (auto simp: after_sep_def split: if_splits)

lemma cut_spaces: "\<forall>x\<in>set ws. is_space x \<Longrightarrow> cut_from acc (ws @ v) = cut_from (acc @ ws) v"
proof (induction ws arbitrary: acc)
  case Nil
  show ?case by simp
next
  case (Cons x ws)
  then have "after_sep (x # ws @ v) = None"
    by simp
  then have "cut_from acc ((x # ws) @ v) = cut_from (acc @ [x]) (ws @ v)"
    by (simp add: cut_no_sep)
  with Cons show ?case by simp
qed

lemma cut_acc: "cut_from acc v = (acc @ hd (cut_from [] v)) # tl (cut_from [] v)"
proof (induction "length v" arbitrary: v acc rule: less_induct)
  case less
  show ?case
  proof (cases v)
    case Nil
    then show ?thesis by simp
  next
    case (Cons c cs)
    show ?thesis
    proof (cases "after_sep v")
      case (Some u)
      then show ?thesis by (simp add: cut_sep)
    next
      case None
      have "cut_from acc v = cut_from (acc @ [c]) cs"
        using None unfolding Cons by (rule cut_no_sep)
      also have "\<dots> = ((acc @ [c]) @ hd (cut_from [] cs)) # tl (cut_from [] cs)"
        by (rule less) (simp add: Cons)
      finally have 1: "cut_from acc v = (acc @ c # hd (cut_from [] cs)) # tl (cut_from [] cs)"
        by simp
      have "cut_from [] v = cut_from ([] @ [c]) cs"
        using None unfolding Cons by (rule cut_no_sep)
      also have "\<dots> = (([] @ [c]) @ hd (cut_from [] cs)) # tl (cut_from [] cs)"
        by (rule less) (simp add: Cons)
      finally have 2: "cut_from [] v = (c # hd (cut_from [] cs)) # tl (cut_from [] cs)"
        by simp
      show ?thesis
        unfolding 1 unfolding 2 by simp
    qed
  qed
qed

lemma trim_spaces_prepend: "\<forall>x\<in>set ws. is_space x \<Longrightarrow> trim (ws @ p) = trim p"
proof -
  assume "\<forall>x\<in>set ws. is_space x"
  then have "dropWhile is_space (ws @ p) = dropWhile is_space p"
    by (intro dropWhile_append2) blast
  then show ?thesis by (simp add: trim_def trimStart_def)
qed

lemma trimEnd_spaces: "\<forall>x\<in>set ws. is_space x \<Longrightarrow> trimEnd (p @ ws) = trimEnd p"
proof -
  assume "\<forall>x\<in>set ws. is_space x"
  then have "dropWhile is_space (rev ws @ rev p) = dropWhile is_space (rev p)"
    by (intro dropWhile_append2) simp
  then show ?thesis by (simp add: trimEnd_def)
qed

lemma trim_spaces_append: "\<forall>x\<in>set ws. is_space x \<Longrightarrow> trim (acc @ ws) = trim acc"
proof -
  assume ws: "\<forall>x\<in>set ws. is_space x"
  show ?thesis
  proof (cases "\<forall>x\<in>set acc. is_space x")
    case True
    then have A: "dropWhile is_space (acc @ ws) = []" and B: "dropWhile is_space acc = []"
      using ws by (simp_all add: dropWhile_eq_Nil_conv)
    show ?thesis
      unfolding trim_def trimStart_def A B ..
  next
    case False
    then obtain x where "x \<in> set acc" "\<not> is_space x" by blast
    then have "dropWhile is_space (acc @ ws) = dropWhile is_space acc @ ws"
      by (rule dropWhile_append1)
    then show ?thesis
      using ws by (simp add: trim_def trimStart_def trimEnd_spaces)
  qed
qed

lemma cut_leading_spaces:
  assumes "\<forall>x\<in>set ws. is_space x"
  shows "filter (\<lambda>p. p \<noteq> []) (map trim (cut_from [] (ws @ v)))
           = filter (\<lambda>p. p \<noteq> []) (map trim (cut_from [] v))"
proof -
  have "cut_from [] (ws @ v) = cut_from ws v"
    using cut_spaces [OF assms, of "[]" v] by simp
  also have "\<dots> = (ws @ hd (cut_from [] v)) # tl (cut_from [] v)"
    by (rule cut_acc)
  finally have 1: "cut_from [] (ws @ v) = (ws @ hd (cut_from [] v)) # tl (cut_from [] v)" .
  have 2: "cut_from [] v = hd (cut_from [] v) # tl (cut_from [] v)"
    using cut_acc [of "[]" v] by simp
  show ?thesis
    unfolding 1 by (subst (3) 2) (simp add: trim_spaces_prepend [OF assms])
qed

lemma rsplit_from_cut:
  "filter (\<lambda>p. p \<noteq> []) (map trim (rsplit_from False COMPOUND_SEPARATORS acc s))
     = filter (\<lambda>p. p \<noteq> []) (map trim (cut_from acc s))"
proof (induction "length s" arbitrary: s acc rule: less_induct)
  case less
  show ?case
  proof (cases s)
    case Nil
    then show ?thesis by (subst rsplit_from.simps) simp
  next
    case (Cons c cs)
    show ?thesis
    proof (cases "after_sep (dropWhile is_space s)")
      case None
      then have n: "after_sep (c # cs) = None"
        unfolding Cons by (rule after_sep_dropWhile)
      have "filter (\<lambda>p. p \<noteq> []) (map trim (rsplit_from False COMPOUND_SEPARATORS (acc @ [c]) cs))
          = filter (\<lambda>p. p \<noteq> []) (map trim (cut_from (acc @ [c]) cs))"
        by (rule less) (simp add: Cons)
      then show ?thesis
        using None unfolding Cons by (simp add: rsplit_from_compound cut_no_sep [OF n])
    next
      case (Some u)
      let ?ws = "takeWhile is_space s"
      have ws: "\<forall>x\<in>set ?ws. is_space x"
        by (auto dest: set_takeWhileD)
      have "cut_from acc (?ws @ dropWhile is_space s) = cut_from (acc @ ?ws) (dropWhile is_space s)"
        using ws by (rule cut_spaces)
      then have c: "cut_from acc s = (acc @ ?ws) # cut_from [] u"
        by (simp add: cut_sep [OF Some])
      have lu: "length (dropWhile is_space u) < length s"
      proof -
        have "length (dropWhile is_space u) \<le> length u"
          by (rule length_dropWhile_le)
        moreover have "length u < length (dropWhile is_space s)"
          using Some by (rule after_sep_length)
        moreover have "length (dropWhile is_space s) \<le> length s"
          by (rule length_dropWhile_le)
        ultimately show ?thesis by linarith
      qed
      have "filter (\<lambda>p. p \<noteq> [])
              (map trim (rsplit_from False COMPOUND_SEPARATORS [] (dropWhile is_space u)))
          = filter (\<lambda>p. p \<noteq> []) (map trim (cut_from [] (dropWhile is_space u)))"
        using lu by (rule less)
      also have "\<dots> = filter (\<lambda>p. p \<noteq> [])
                        (map trim (cut_from [] (takeWhile is_space u @ dropWhile is_space u)))"
        by (rule cut_leading_spaces [symmetric]) (auto dest: set_takeWhileD)
      finally have r: "filter (\<lambda>p. p \<noteq> [])
              (map trim (rsplit_from False COMPOUND_SEPARATORS [] (dropWhile is_space u)))
          = filter (\<lambda>p. p \<noteq> []) (map trim (cut_from [] u))"
        by simp
      have "rsplit_from False COMPOUND_SEPARATORS acc s
          = acc # rsplit_from False COMPOUND_SEPARATORS [] (dropWhile is_space u)"
        using Some unfolding Cons by (simp add: rsplit_from_compound)
      then show ?thesis
        unfolding c using r by (simp add: trim_spaces_append [OF ws])
    qed
  qed
qed

lemma segments_pieces: "segments s = pieces s"
proof (cases s)
  case Nil
  then show ?thesis
    by (simp add: segments_def pieces_def rsplit_def rmatch_compound after_sep_def)
next
  case (Cons c cs)
  then show ?thesis
    using rsplit_from_cut [of "[]" s] by (simp add: segments_def pieces_def rsplit_def)
qed


lemma trimEnd_prefix: "z = trimEnd z @ rev (takeWhile is_space (rev z))"
  unfolding trimEnd_def rev_append [symmetric] takeWhile_dropWhile_id rev_rev_ident ..

lemma trim_inside: "\<exists>a b. p = a @ trim p @ b"
proof -
  have "dropWhile is_space p
      = trim p @ rev (takeWhile is_space (rev (dropWhile is_space p)))"
    unfolding trim_def trimStart_def by (rule trimEnd_prefix)
  then have "takeWhile is_space p @ dropWhile is_space p
      = takeWhile is_space p @ trim p @ rev (takeWhile is_space (rev (dropWhile is_space p)))"
    by simp
  then have "p = takeWhile is_space p @ trim p @ rev (takeWhile is_space (rev (dropWhile is_space p)))"
    unfolding takeWhile_dropWhile_id .
  then show ?thesis by blast
qed

lemma sep_inside_append: "sep_inside p \<Longrightarrow> sep_inside (a @ p @ b)"
proof -
  assume "sep_inside p"
  then obtain a' b' where "p = a' @ ''&&'' @ b' \<or> p = a' @ ''||'' @ b' \<or> p = a' @ '';'' @ b'"
    unfolding sep_inside_iff by blast
  then have "a @ p @ b = (a @ a') @ ''&&'' @ (b' @ b) \<or> a @ p @ b = (a @ a') @ ''||'' @ (b' @ b)
      \<or> a @ p @ b = (a @ a') @ '';'' @ (b' @ b)"
    by auto
  then show ?thesis
    unfolding sep_inside_iff by blast
qed

lemma sep_inside_trim: "sep_inside (trim p) \<Longrightarrow> sep_inside p"
proof -
  assume t: "sep_inside (trim p)"
  obtain a b where "p = a @ trim p @ b"
    using trim_inside by blast
  then show ?thesis
    using sep_inside_append [OF t, of a b] by simp
qed

lemma trim_nonempty_ends:
  assumes "trim x \<noteq> []"
  shows "\<not> is_space (hd (trim x))" "\<not> is_space (last (trim x))"
proof -
  let ?z = "dropWhile is_space x"
  have t: "trim x = rev (dropWhile is_space (rev ?z))"
    by (simp add: trim_def trimStart_def trimEnd_def)
  with assms have rz: "dropWhile is_space (rev ?z) \<noteq> []"
    by simp
  then have "\<not> is_space (hd (dropWhile is_space (rev ?z)))"
    by (rule hd_dropWhile)
  moreover have "last (trim x) = hd (dropWhile is_space (rev ?z))"
    unfolding t by (rule last_rev)
  ultimately show "\<not> is_space (last (trim x))"
    by simp
  have "?z = trim x @ rev (takeWhile is_space (rev ?z))"
    unfolding trim_def trimStart_def by (rule trimEnd_prefix)
  then obtain b where zb: "?z = trim x @ b"
    by blast
  with assms have z: "?z \<noteq> []"
    by auto
  then have "\<not> is_space (hd ?z)"
    by (rule hd_dropWhile)
  moreover have "hd ?z = hd (trim x)"
    using assms by (subst zb) (rule hd_append2)
  ultimately show "\<not> is_space (hd (trim x))"
    by simp
qed

lemma dropWhile_id: "xs \<noteq> [] \<Longrightarrow> \<not> P (hd xs) \<Longrightarrow> dropWhile P xs = xs"
  by (cases xs) simp_all

lemma trim_Nil: "trim [] = []"
  by (simp add: trim_def trimStart_def trimEnd_def)

lemma trim_trim: "trim (trim x) = trim x"
proof (cases "trim x = []")
  case True
  then show ?thesis by (simp add: trim_Nil)
next
  case False
  from trim_nonempty_ends [OF False]
  have h: "\<not> is_space (hd (trim x))" and l: "\<not> is_space (last (trim x))" .
  have 1: "dropWhile is_space (trim x) = trim x"
    using False h by (rule dropWhile_id)
  have "rev (trim x) \<noteq> []" "\<not> is_space (hd (rev (trim x)))"
    using False l by (simp_all add: hd_rev)
  then have 2: "dropWhile is_space (rev (trim x)) = rev (trim x)"
    by (rule dropWhile_id)
  show ?thesis
    unfolding trim_def [of "trim x"] trimStart_def trimEnd_def 1 2 rev_rev_ident ..
qed

lemma after_sep_Cons_iff:
  "after_sep (c # cs) \<noteq> None
     \<longleftrightarrow> c = CHR '';'' \<or> (cs \<noteq> [] \<and> (c = CHR ''&'' \<and> hd cs = CHR ''&'' \<or> c = CHR ''|'' \<and> hd cs = CHR ''|''))"
  by (cases cs) (auto simp: after_sep_def)

lemma sep_inside_snoc:
  "sep_inside (acc @ [c])
     \<longleftrightarrow> sep_inside acc \<or> c = CHR '';''
         \<or> (acc \<noteq> [] \<and> (last acc = CHR ''&'' \<and> c = CHR ''&'' \<or> last acc = CHR ''|'' \<and> c = CHR ''|''))"
proof (induction acc)
  case Nil
  have "after_sep [c] \<noteq> None \<longleftrightarrow> c = CHR '';''"
    using after_sep_Cons_iff [of c "[]"] by simp
  then show ?case
    unfolding append_Nil sep_inside_Cons by simp
next
  case (Cons x xs)
  show ?case
  proof (cases xs)
    case Nil
    have "sep_inside ([x] @ [c])
        \<longleftrightarrow> after_sep [x, c] \<noteq> None \<or> after_sep [c] \<noteq> None"
      by (simp add: sep_inside_Cons)
    moreover have "sep_inside [x] \<longleftrightarrow> after_sep [x] \<noteq> None"
      by (simp add: sep_inside_Cons)
    ultimately show ?thesis
      unfolding Nil after_sep_Cons_iff by auto
  next
    case (Cons y ys)
    have "sep_inside ((x # xs) @ [c])
        \<longleftrightarrow> after_sep (x # xs @ [c]) \<noteq> None \<or> sep_inside (xs @ [c])"
      by (simp add: sep_inside_Cons)
    moreover have "sep_inside (x # xs) \<longleftrightarrow> after_sep (x # xs) \<noteq> None \<or> sep_inside xs"
      by (rule sep_inside_Cons)
    moreover have "after_sep (x # xs @ [c]) \<noteq> None \<longleftrightarrow> after_sep (x # xs) \<noteq> None"
      unfolding after_sep_Cons_iff Cons by simp
    moreover have "xs \<noteq> []" "last (x # xs) = last xs"
      by (simp_all add: Cons)
    ultimately show ?thesis
      using Cons.IH by auto
  qed
qed

lemma cut_pieces_no_sep:
  "\<not> sep_inside acc \<Longrightarrow>
   \<not> (acc \<noteq> [] \<and> v \<noteq> [] \<and> (last acc = CHR ''&'' \<and> hd v = CHR ''&''
                                \<or> last acc = CHR ''|'' \<and> hd v = CHR ''|'')) \<Longrightarrow>
   p \<in> set (cut_from acc v) \<Longrightarrow> \<not> sep_inside p"
proof (induction "length v" arbitrary: v acc rule: less_induct)
  case less
  show ?case
  proof (cases v)
    case Nil
    with less.prems show ?thesis by simp
  next
    case (Cons c cs)
    show ?thesis
    proof (cases "after_sep v")
      case (Some u)
      then have "cut_from acc v = acc # cut_from [] u"
        by (rule cut_sep)
      with less.prems(3) consider "p = acc" | "p \<in> set (cut_from [] u)"
        by auto
      then show ?thesis
      proof cases
        case 1
        with less.prems(1) show ?thesis by simp
      next
        case 2
        have "length u < length v"
          using Some by (rule after_sep_length)
        from less.hyps [OF this _ _ 2] show ?thesis by simp
      qed
    next
      case None
      then have n: "after_sep (c # cs) = None"
        unfolding Cons .
      then have nc: "\<not> (c = CHR '';'' \<or> (cs \<noteq> [] \<and> (c = CHR ''&'' \<and> hd cs = CHR ''&''
                          \<or> c = CHR ''|'' \<and> hd cs = CHR ''|'')))"
        using after_sep_Cons_iff [of c cs] by simp
      have "cut_from acc v = cut_from (acc @ [c]) cs"
        unfolding Cons using n by (rule cut_no_sep)
      with less.prems(3) have p: "p \<in> set (cut_from (acc @ [c]) cs)"
        by simp
      have 1: "\<not> sep_inside (acc @ [c])"
        using less.prems(1,2) nc unfolding sep_inside_snoc Cons by auto
      have 2: "\<not> (acc @ [c] \<noteq> [] \<and> cs \<noteq> [] \<and> (last (acc @ [c]) = CHR ''&'' \<and> hd cs = CHR ''&''
                                \<or> last (acc @ [c]) = CHR ''|'' \<and> hd cs = CHR ''|''))"
        using nc by auto
      have "length cs < length v"
        by (simp add: Cons)
      from less.hyps [OF this 1 2 p] show ?thesis .
    qed
  qed
qed

lemma pieces_plain:
  assumes "p \<in> set (pieces s)"
  shows "trim p = p" "\<not> isCompoundCommand p"
proof -
  from assms obtain q where q: "q \<in> set (cut_from [] s)" "p = trim q"
    unfolding pieces_def by auto
  show "trim p = p"
    unfolding q(2) by (rule trim_trim)
  have "\<not> sep_inside q"
    using cut_pieces_no_sep [of "[]" s q] q(1) by simp
  then have "\<not> sep_inside p"
    unfolding q(2) using sep_inside_trim by blast
  then show "\<not> isCompoundCommand p"
    by (simp add: isCompoundCommand_iff)
qed

lemma parseCommand_plain:
  assumes "trim p = p" "\<not> isCompoundCommand p"
  shows "dockerCommands (parseCommand p)
           = (if isExecSegment p then [the (parseDockerExecCommand p)] else [])"
    and "pc_type (parseCommand p) = docker_exec \<longleftrightarrow> isDockerExecCommand p"
  using assms by (auto simp: parseCommand_def Let_def isExecSegment_def)

lemma pieces_dockerCommands:
  assumes "\<forall>p\<in>set ps. trim p = p \<and> \<not> isCompoundCommand p"
  shows "map (the \<circ> parseDockerExecCommand) (filter isExecSegment ps)
           = concat (map (\<lambda>p. dockerCommands (parseCommand p)) ps)"
  using assms by (induction ps) (simp_all add: parseCommand_plain(1))

lemma pieces_regularCommands:
  assumes "\<forall>p\<in>set ps. trim p = p \<and> \<not> isCompoundCommand p"
  shows "filter (\<lambda>p. \<not> isDockerExecCommand p) ps
           = filter (\<lambda>p. pc_type (parseCommand p) \<noteq> docker_exec) ps"
  using assms by (induction ps) (simp_all add: parseCommand_plain(2))


lemma parseCompoundCommand_pieces:
  "dockerCommands (parseCompoundCommand s)
     = concat (map (\<lambda>p. dockerCommands (parseCommand p)) (pieces s))"
  "regularCommands (parseCompoundCommand s)
     = filter (\<lambda>p. pc_type (parseCommand p) \<noteq> docker_exec) (pieces s)"
  "needsContainerContext (parseCompoundCommand s)
     = Some ((\<exists>p\<in>set (pieces s). dockerCommands (parseCommand p) \<noteq> [])
             \<and> (\<exists>p\<in>set (pieces s). pc_type (parseCommand p) \<noteq> docker_exec))"
proof -
  have pl: "\<forall>p\<in>set (pieces s). trim p = p \<and> \<not> isCompoundCommand p"
    using pieces_plain by blast
  have c: "classifyParts (rsplit False COMPOUND_SEPARATORS s) ([], [], False)
      = (map (the \<circ> parseDockerExecCommand) (filter isExecSegment (pieces s)),
         filter (\<lambda>p. \<not> isDockerExecCommand p) (pieces s),
         \<exists>p\<in>set (pieces s). isExecSegment p)"
    unfolding classifyParts_segments segments_pieces [symmetric] segments_def by simp
  have e: "(\<exists>p\<in>set (pieces s). isExecSegment p)
      \<longleftrightarrow> (\<exists>p\<in>set (pieces s). dockerCommands (parseCommand p) \<noteq> [])"
    using pl by (auto simp: parseCommand_plain(1))
  have r: "(filter (\<lambda>p. \<not> isDockerExecCommand p) (pieces s) \<noteq> [])
      \<longleftrightarrow> (\<exists>p\<in>set (pieces s). pc_type (parseCommand p) \<noteq> docker_exec)"
    using pl by (auto simp: filter_empty_conv parseCommand_plain(2))
  show "dockerCommands (parseCompoundCommand s)
     = concat (map (\<lambda>p. dockerCommands (parseCommand p)) (pieces s))"
    using pieces_dockerCommands [OF pl] by (simp add: parseCompoundCommand_def Let_def c)
  show "regularCommands (parseCompoundCommand s)
     = filter (\<lambda>p. pc_type (parseCommand p) \<noteq> docker_exec) (pieces s)"
    using pieces_regularCommands [OF pl] by (simp add: parseCompoundCommand_def Let_def c)
  show "needsContainerContext (parseCompoundCommand s)
     = Some ((\<exists>p\<in>set (pieces s). dockerCommands (parseCommand p) \<noteq> [])
             \<and> (\<exists>p\<in>set (pieces s). pc_type (parseCommand p) \<noteq> docker_exec))"
    using e r by (simp add: parseCompoundCommand_def Let_def c)
qed

text \<open>
  C5, as the code has it.  A command line is compound exactly when its trimmed text
  holds \<open>&&\<close>, \<open>||\<close> or \<open>;\<close> anywhere, inside quotes or not.  It is then cut at every one
  of them, and each segment (a trimmed piece that is not empty) is parsed: the
  \<open>docker exec\<close> commands of the line are those of its segments, its regular commands
  are the segments that are not of type \<open>docker_exec\<close> (a \<open>docker run\<close> segment among
  them), and it needs the container context exactly when a segment has a \<open>docker exec\<close>
  command and a segment is not of type \<open>docker_exec\<close>.
\<close>

theorem parseCommand_compound:
  "((\<exists>a b. trim command = a @ ''&&'' @ b \<or> trim command = a @ ''||'' @ b
            \<or> trim command = a @ '';'' @ b) \<longrightarrow>
      pc_type (parseCommand command) = compound
      \<and> dockerCommands (parseCommand command)
          = concat (map (\<lambda>p. dockerCommands (parseCommand p)) (pieces (trim command)))
      \<and> regularCommands (parseCommand command)
          = filter (\<lambda>p. pc_type (parseCommand p) \<noteq> docker_exec) (pieces (trim command))
      \<and> needsContainerContext (parseCommand command)
          = Some ((\<exists>p\<in>set (pieces (trim command)). dockerCommands (parseCommand p) \<noteq> [])
                  \<and> (\<exists>p\<in>set (pieces (trim command)). pc_type (parseCommand p) \<noteq> docker_exec)))
   \<and> ((\<forall>a b. trim command \<noteq> a @ ''&&'' @ b \<and> trim command \<noteq> a @ ''||'' @ b
             \<and> trim command \<noteq> a @ '';'' @ b) \<longrightarrow>
      pc_type (parseCommand command) \<noteq> compound
      \<and> needsContainerContext (parseCommand command) = None)"
proof (intro conjI impI)
  assume "\<exists>a b. trim command = a @ ''&&'' @ b \<or> trim command = a @ ''||'' @ b
            \<or> trim command = a @ '';'' @ b"
  then have "isCompoundCommand (trim command)"
    unfolding isCompoundCommand_iff sep_inside_iff .
  then have p: "parseCommand command = parseCompoundCommand (trim command)"
    by (simp add: parseCommand_def)
  show "pc_type (parseCommand command) = compound"
    unfolding p by (rule pc_type_parseCompoundCommand)
  show "dockerCommands (parseCommand command)
          = concat (map (\<lambda>p. dockerCommands (parseCommand p)) (pieces (trim command)))"
    unfolding p by (rule parseCompoundCommand_pieces)
  show "regularCommands (parseCommand command)
          = filter (\<lambda>p. pc_type (parseCommand p) \<noteq> docker_exec) (pieces (trim command))"
    unfolding p by (rule parseCompoundCommand_pieces)
  show "needsContainerContext (parseCommand command)
          = Some ((\<exists>p\<in>set (pieces (trim command)). dockerCommands (parseCommand p) \<noteq> [])
                  \<and> (\<exists>p\<in>set (pieces (trim command)). pc_type (parseCommand p) \<noteq> docker_exec))"
    unfolding p by (rule parseCompoundCommand_pieces)
next
  assume "\<forall>a b. trim command \<noteq> a @ ''&&'' @ b \<and> trim command \<noteq> a @ ''||'' @ b
             \<and> trim command \<noteq> a @ '';'' @ b"
  then have n: "\<not> isCompoundCommand (trim command)"
    unfolding isCompoundCommand_iff sep_inside_iff by blast
  then show "pc_type (parseCommand command) \<noteq> compound"
    by (simp add: parseCommand_def Let_def)
  from n show "needsContainerContext (parseCommand command) = None"
    by (simp add: parseCommand_def Let_def)
qed

theorem parseCommand_compound_witness:
  "pc_type (parseCommand ''docker exec -w /app api pwd && ls || echo no; id'') = compound
   \<and> map dc_containerName
       (dockerCommands (parseCommand ''docker exec -w /app api pwd && ls || echo no; id''))
       = [''api'']
   \<and> regularCommands (parseCommand ''docker exec -w /app api pwd && ls || echo no; id'')
       = [''ls'', ''echo no'', ''id'']
   \<and> needsContainerContext (parseCommand ''docker exec -w /app api pwd && ls || echo no; id'')
       = Some True
   \<and> pc_type (parseCommand ''ls | wc'') \<noteq> compound"
proof -
  let ?c = "''docker exec -w /app api pwd && ls || echo no; id''"
  have t: "trim ?c = ''docker exec -w /app api pwd '' @ ''&&'' @ '' ls || echo no; id''"
    by code_simp
  then have h: "\<exists>a b. trim ?c = a @ ''&&'' @ b \<or> trim ?c = a @ ''||'' @ b \<or> trim ?c = a @ '';'' @ b"
    by blast
  have s: "pieces (trim ?c) = [''docker exec -w /app api pwd'', ''ls'', ''echo no'', ''id'']"
    by code_simp
  have e: "map dc_containerName (dockerCommands (parseCommand ''docker exec -w /app api pwd''))
      = [''api'']"
    "dockerCommands (parseCommand ''ls'') = []" "dockerCommands (parseCommand ''echo no'') = []"
    "dockerCommands (parseCommand ''id'') = []"
    "pc_type (parseCommand ''docker exec -w /app api pwd'') = docker_exec"
    "pc_type (parseCommand ''ls'') = regular" "pc_type (parseCommand ''echo no'') = regular"
    "pc_type (parseCommand ''id'') = regular"
    by code_simp+
  have n: "\<not> str_includes (trim ''ls | wc'') ''&&''" "\<not> str_includes (trim ''ls | wc'') ''||''"
    "\<not> str_includes (trim ''ls | wc'') '';''"
    by code_simp+
  then have n': "\<forall>a b. trim ''ls | wc'' \<noteq> a @ ''&&'' @ b \<and> trim ''ls | wc'' \<noteq> a @ ''||'' @ b
             \<and> trim ''ls | wc'' \<noteq> a @ '';'' @ b"
    unfolding str_includes_iff by blast
  have 1: "pc_type (parseCommand ?c) = compound
      \<and> dockerCommands (parseCommand ?c)
          = concat (map (\<lambda>p. dockerCommands (parseCommand p)) (pieces (trim ?c)))
      \<and> regularCommands (parseCommand ?c)
          = filter (\<lambda>p. pc_type (parseCommand p) \<noteq> docker_exec) (pieces (trim ?c))
      \<and> needsContainerContext (parseCommand ?c)
          = Some ((\<exists>p\<in>set (pieces (trim ?c)). dockerCommands (parseCommand p) \<noteq> [])
                  \<and> (\<exists>p\<in>set (pieces (trim ?c)). pc_type (parseCommand p) \<noteq> docker_exec))"
    using parseCommand_compound [of ?c] h by blast
  have 2: "pc_type (parseCommand ''ls | wc'') \<noteq> compound"
    using parseCommand_compound [of "''ls | wc''"] n' by blast
  have d: "dockerCommands (parseCommand ''docker exec -w /app api pwd'') \<noteq> []"
    using e(1) by auto
  show ?thesis
    using 1 2 d unfolding s by (simp add: e)
qed

text \<open>C5 as stated fails.  The \<open>;\<close> inside the double quotes of \<open>echo "a;b"\<close> cuts the
  command.  In \<open>docker exec web ls && docker run -d nginx\<close> one segment is of type
  \<open>docker_exec\<close> and the other of type \<open>docker_run\<close>, none is regular, and the command
  needs the container context.  In \<open>sudo docker exec web ls && ls\<close> one segment is of
  type \<open>docker_exec\<close> and the other is regular, and the command does not need the
  container context: the words of the first segment do not parse, so that it gives no
  \<open>docker exec\<close> command.\<close>

theorem quoted_separator_splits:
  "pc_type (parseCommand (''echo '' @ [CHR 0x22] @ ''a;b'' @ [CHR 0x22])) = compound
   \<and> regularCommands (parseCommand (''echo '' @ [CHR 0x22] @ ''a;b'' @ [CHR 0x22]))
       = [''echo '' @ [CHR 0x22] @ ''a'', ''b'' @ [CHR 0x22]]
   \<and> pc_type (parseCommand ''docker exec web ls'') = docker_exec
   \<and> pc_type (parseCommand ''docker run -d nginx'') = docker_run
   \<and> needsContainerContext (parseCommand ''docker exec web ls && docker run -d nginx'') = Some True
   \<and> regularCommands (parseCommand ''docker exec web ls && docker run -d nginx'')
       = [''docker run -d nginx'']
   \<and> pc_type (parseCommand ''sudo docker exec web ls'') = docker_exec
   \<and> dockerCommands (parseCommand ''sudo docker exec web ls'') = []
   \<and> pc_type (parseCommand ''ls'') = regular
   \<and> needsContainerContext (parseCommand ''sudo docker exec web ls && ls'') = Some False"
  by code_simp

subsection \<open>Commands with \<open>sudo\<close>\<close>





lemma exec_log_rememberContainer [simp]:
  "exec_log (rememberContainer w now s cid parsed) = exec_log s"
  by (simp add: rememberContainer_def touchContainer_def split: list.splits)






end
